theory Spec2Isabelle
  imports Complex_Main
begin

section \<open>MisinfoGuard: the multi-agent coordinator\<close>

text \<open>
  A shallow embedding of \<^verbatim>\<open>src/agents/coordinator.py\<close>, of the data classes of
  \<^verbatim>\<open>src/core/models.py\<close> and of the cache signal of \<^verbatim>\<open>api.py\<close>.

  Conventions of the embedding:
  \<^item> a Python \<^verbatim>\<open>str\<close> is a \<open>string\<close>; the texts handled here (URLs, code fences,
    JSON keys) are taken to be ASCII, so that one \<open>char\<close> is one Python character;
  \<^item> a Python exception is a value of \<open>exn\<close>, and a function that may raise returns
    \<open>exn + 'a\<close> with \<open>Inl\<close> for the raise;
  \<^item> a Python \<^verbatim>\<open>float\<close> is a real number (the literal \<^verbatim>\<open>0.8\<close> is \<open>0.8\<close>; rounding is
    not modelled), or one of the three non-finite values that \<^verbatim>\<open>json.loads\<close> and
    \<^verbatim>\<open>float()\<close> can produce;
  \<^item> the collaborators (search backend, language model, clock) and the two library
    parsers (\<^verbatim>\<open>json.loads\<close>, \<^verbatim>\<open>float\<close> of a string) are fields of a record \<open>env\<close>
    and are arbitrary in every theorem.
\<close>

subsection \<open>Exceptions\<close>

datatype exn =
  IndexError | KeyError | TypeError | ValueError | OverflowError | AttributeError
  | ValidationError | CollaboratorError

subsection \<open>Python string operations\<close>

text \<open>\<^verbatim>\<open>str.lower\<close> on ASCII text.\<close>

definition lower_char :: "char \<Rightarrow> char" where
  "lower_char c =
     (let n = (of_char c :: nat) in if 65 \<le> n \<and> n \<le> 90 then char_of (n + 32) else c)"

definition lower :: "string \<Rightarrow> string" where
  "lower s = map lower_char s"

text \<open>\<^verbatim>\<open>s.split(sep)\<close> for a one-character separator: never the empty list.\<close>

fun split :: "char \<Rightarrow> string \<Rightarrow> string list" where
  "split sep [] = [[]]"
| "split sep (c # cs) =
     (if c = sep then [] # split sep cs
      else (case split sep cs of [] \<Rightarrow> [[c]] | p # ps \<Rightarrow> (c # p) # ps))"

text \<open>\<^verbatim>\<open>sub in s\<close> on strings: \<open>sub\<close> occurs in \<open>s\<close> as a contiguous block.\<close>

fun contains :: "string \<Rightarrow> string \<Rightarrow> bool" where
  "contains [] sub = (sub = [])"
| "contains (c # cs) sub = (take (length sub) (c # cs) = sub \<or> contains cs sub)"

text \<open>
  \<^verbatim>\<open>str.strip()\<close>: the ASCII characters for which \<^verbatim>\<open>str.isspace\<close> holds are
  code points 9 to 13 and 28 to 32.
\<close>

definition is_space :: "char \<Rightarrow> bool" where
  "is_space c =
     (let n = (of_char c :: nat) in (9 \<le> n \<and> n \<le> 13) \<or> (28 \<le> n \<and> n \<le> 32))"

definition lstrip :: "string \<Rightarrow> string" where
  "lstrip s = dropWhile is_space s"

definition rstrip :: "string \<Rightarrow> string" where
  "rstrip s = rev (dropWhile is_space (rev s))"

definition strip :: "string \<Rightarrow> string" where
  "strip s = rstrip (lstrip s)"

text \<open>
  \<^verbatim>\<open>s.replace(old, new)\<close>: every non-overlapping occurrence of \<open>old\<close>, scanning from
  the left. With an empty \<open>old\<close>, Python puts \<open>new\<close> before every character and at the end.
\<close>

function replace :: "string \<Rightarrow> string \<Rightarrow> string \<Rightarrow> string" where
  "replace old new s =
     (if old = [] then new @ concat (map (\<lambda>c. c # new) s)
      else if s = [] then []
      else if take (length old) s = old then new @ replace old new (drop (length old) s)
      else hd s # replace old new (tl s))"
  by pat_completeness auto
termination
  by (relation "measure (\<lambda>(old, new, s). length s)") auto

text \<open>\<^verbatim>\<open>sep.join(parts)\<close>.\<close>

fun join :: "string \<Rightarrow> string list \<Rightarrow> string" where
  "join sep [] = []"
| "join sep [p] = p"
| "join sep (p # q # ps) = p @ sep @ join sep (q # ps)"

subsection \<open>Data model (\<^verbatim>\<open>src/core/models.py\<close>)\<close>

record Evidence =
  title :: string
  url :: string
  snippet :: string

datatype Verdict = MISINFORMATION | VERIFIED | UNCERTAIN

record ClaimAnalysis =
  claim :: string
  verdict :: Verdict
  confidence :: real
  explanation :: string
  evidence :: "Evidence list"
  analyzed_at :: nat
  cached :: bool

subsection \<open>CredibilityAssessorAgent\<close>

datatype credibility = High | Medium | Low

text \<open>
  \<^verbatim>\<open>domain = ev.url.split('/')[2] if '/' in ev.url else ev.url\<close>; the subscript raises
  \<^verbatim>\<open>IndexError\<close> when the split has fewer than three segments.
\<close>

definition domain_of :: "string \<Rightarrow> exn + string" where
  "domain_of u =
     (if CHR ''/'' \<in> set u
      then (let parts = split CHR ''/'' u
            in if 2 < length parts then Inr (parts ! 2) else Inl IndexError)
      else Inr u)"

definition trusted_markers :: "string list" where
  "trusted_markers = [''edu'', ''gov'', ''reuters'', ''apnews'', ''bbc'', ''factcheck'']"

definition untrusted_markers :: "string list" where
  "untrusted_markers = [''blog'', ''wordpress'', ''medium'']"

definition classify :: "string \<Rightarrow> credibility" where
  "classify d =
     (if list_ex (contains (lower d)) trusted_markers then High
      else if list_ex (contains (lower d)) untrusted_markers then Low
      else Medium)"

text \<open>The loop of \<^verbatim>\<open>assess\<close>, with the dictionary it fills as the accumulator.\<close>

fun assess_loop :: "Evidence list \<Rightarrow> (string \<rightharpoonup> credibility) \<Rightarrow> exn + (string \<rightharpoonup> credibility)" where
  "assess_loop [] m = Inr m"
| "assess_loop (ev # evs) m =
     (case domain_of (url ev) of
        Inl e \<Rightarrow> Inl e
      | Inr d \<Rightarrow> assess_loop evs (m(url ev \<mapsto> classify d)))"

definition assess :: "Evidence list \<Rightarrow> exn + (string \<rightharpoonup> credibility)" where
  "assess evs = assess_loop evs Map.empty"

subsection \<open>JSON values and Python floats\<close>

datatype pyfloat = Finite real | PosInf | NegInf | NaN

text \<open>
  What \<^verbatim>\<open>json.loads\<close> returns. An object is the association list of its dictionary,
  read with \<open>map_of\<close>.
\<close>

datatype json =
  JNull | JBool bool | JInt int | JFloat pyfloat | JStr string
  | JArr "json list" | JObj "(string \<times> json) list"

text \<open>\<^verbatim>\<open>len(v)\<close>: defined for lists, dictionaries and strings.\<close>

fun py_len :: "json \<Rightarrow> exn + nat" where
  "py_len (JArr xs) = Inr (length xs)"
| "py_len (JObj kvs) = Inr (length (remdups (map fst kvs)))"
| "py_len (JStr s) = Inr (length s)"
| "py_len _ = Inl TypeError"

text \<open>\<^verbatim>\<open>v[key]\<close> with a string key: only a dictionary can be subscripted by a string.\<close>

fun py_getitem :: "json \<Rightarrow> string \<Rightarrow> exn + json" where
  "py_getitem (JObj kvs) k = (case map_of kvs k of None \<Rightarrow> Inl KeyError | Some v \<Rightarrow> Inr v)"
| "py_getitem _ k = Inl TypeError"

text \<open>\<^verbatim>\<open>v.get(key, default)\<close>: only a dictionary has the method.\<close>

fun py_get :: "json \<Rightarrow> string \<Rightarrow> json \<Rightarrow> exn + json" where
  "py_get (JObj kvs) k d = (case map_of kvs k of None \<Rightarrow> Inr d | Some v \<Rightarrow> Inr v)"
| "py_get _ k d = Inl AttributeError"

subsection \<open>Collaborators\<close>

text \<open>A search hit is a dictionary of strings; \<open>None\<close> is a missing key.\<close>

record search_result =
  href :: "string option"
  result_title :: "string option"
  body :: "string option"

text \<open>
  The prompt of a language-model call, as the values interpolated into its template:
  topic and evidence summary for the fact checker; claim, reasoning and source list for
  the explainer.
\<close>

datatype prompt =
  FactCheckPrompt string string
  | ExplainPrompt json json string

text \<open>
  \<open>search q n\<close> is \<^verbatim>\<open>SearchTool.search(q, max_results=n)\<close>, and \<open>finished_at q\<close> the time
  at which the thread running the search for \<open>q\<close> ends. \<open>generate k p\<close> is the
  outcome of the \<open>k\<close>-th call of \<^verbatim>\<open>model.generate_content\<close> in one run of the
  coordinator, followed by reading \<^verbatim>\<open>response.text\<close>: call 0 is the fact checker's, call
  \<open>i + 1\<close> the explainer's for the fact at index \<open>i\<close>. \<open>json_loads\<close> returns \<open>None\<close> for
  \<^verbatim>\<open>JSONDecodeError\<close>, \<open>float_of_str\<close> returns \<open>None\<close> for the \<^verbatim>\<open>ValueError\<close> of
  \<^verbatim>\<open>float(s)\<close>. \<open>now i\<close> is \<^verbatim>\<open>datetime.now()\<close> read for the fact at index \<open>i\<close>.
\<close>

record env =
  search :: "string \<Rightarrow> nat \<Rightarrow> exn + search_result list"
  finished_at :: "string \<Rightarrow> nat"
  generate :: "nat \<Rightarrow> prompt \<Rightarrow> exn + string"
  json_loads :: "string \<Rightarrow> json option"
  float_of_str :: "string \<Rightarrow> pyfloat option"
  now :: "nat \<Rightarrow> nat"

text \<open>
  \<^verbatim>\<open>float(v)\<close>. An integer converts unless it rounds beyond the largest double; a
  Boolean is 0 or 1; a string is parsed; anything else is a \<^verbatim>\<open>TypeError\<close>.
\<close>

fun py_float :: "env \<Rightarrow> json \<Rightarrow> exn + pyfloat" where
  "py_float w (JInt i) =
     (if 2 ^ 1024 - 2 ^ 970 \<le> \<bar>i\<bar> then Inl OverflowError else Inr (Finite (real_of_int i)))"
| "py_float w (JFloat x) = Inr x"
| "py_float w (JBool b) = Inr (Finite (if b then 1 else 0))"
| "py_float w (JStr s) =
     (case float_of_str w s of None \<Rightarrow> Inl ValueError | Some x \<Rightarrow> Inr x)"
| "py_float w _ = Inl TypeError"

subsection \<open>EvidenceGathererAgent\<close>

definition queries :: "string \<Rightarrow> string list" where
  "queries topic = [topic, topic @ '' fact check'', topic @ '' misinformation analysis'']"

text \<open>
  \<^verbatim>\<open>asyncio.gather\<close> over the searches, without \<^verbatim>\<open>return_exceptions\<close>: when every search
  returns, the results in the order of the queries, whatever the order in which the
  searches ended; otherwise the exception that was raised first in time. The outcomes come
  with the times at which the searches ended. \<open>first_raised\<close> scans them, keeping the
  earliest failure seen so far; of two failures with the same time it keeps the one of the
  earlier query.
\<close>

fun first_raised :: "(nat \<times> exn) option \<Rightarrow> (nat \<times> (exn + 'a)) list \<Rightarrow> (nat \<times> exn) option" where
  "first_raised best [] = best"
| "first_raised best ((t, Inr x) # rs) = first_raised best rs"
| "first_raised best ((t, Inl e) # rs) =
     first_raised
       (case best of
          None \<Rightarrow> Some (t, e)
        | Some (t', e') \<Rightarrow> if t < t' then Some (t, e) else Some (t', e'))
       rs"

fun returned :: "(exn + 'a) list \<Rightarrow> 'a list" where
  "returned [] = []"
| "returned (Inr x # rs) = x # returned rs"
| "returned (Inl e # rs) = returned rs"

definition gather_results :: "nat list \<Rightarrow> (exn + 'a) list \<Rightarrow> exn + 'a list" where
  "gather_results ends outcomes =
     (case first_raised None (zip ends outcomes) of
        Some (t, e) \<Rightarrow> Inl e
      | None \<Rightarrow> Inr (returned outcomes))"

text \<open>
  The body of the inner loop: \<^verbatim>\<open>url = result.get('href')\<close>, then
  \<^verbatim>\<open>if url and url not in seen_urls\<close>. The state is the pair of \<^verbatim>\<open>all_evidence\<close> and
  \<^verbatim>\<open>seen_urls\<close>.
\<close>

definition add_result :: "search_result \<Rightarrow> Evidence list \<times> string set \<Rightarrow> Evidence list \<times> string set" where
  "add_result r st =
     (case href r of
        None \<Rightarrow> st
      | Some u \<Rightarrow>
          if u \<noteq> [] \<and> u \<notin> snd st
          then (fst st @
                  [\<lparr>title = (case result_title r of None \<Rightarrow> ''Unknown'' | Some t \<Rightarrow> t),
                    url = u,
                    snippet = take 200 (case body r of None \<Rightarrow> [] | Some b \<Rightarrow> b)\<rparr>],
                insert u (snd st))
          else st)"

fun inner_loop :: "search_result list \<Rightarrow> Evidence list \<times> string set \<Rightarrow> Evidence list \<times> string set" where
  "inner_loop [] st = st"
| "inner_loop (r # rs) st = inner_loop rs (add_result r st)"

fun outer_loop :: "search_result list list \<Rightarrow> Evidence list \<times> string set \<Rightarrow> Evidence list \<times> string set" where
  "outer_loop [] st = st"
| "outer_loop (results # rest) st = outer_loop rest (inner_loop results st)"

definition gather :: "env \<Rightarrow> string \<Rightarrow> exn + Evidence list" where
  "gather w topic =
     (case gather_results (map (finished_at w) (queries topic))
             (map (\<lambda>query. search w query 3) (queries topic)) of
        Inl e \<Rightarrow> Inl e
      | Inr results_list \<Rightarrow> Inr (take 8 (fst (outer_loop results_list ([], {})))))"

subsection \<open>FactCheckerAgent\<close>

definition newline :: string where
  "newline = [CHR 0x0A]"

definition evidence_summary :: "Evidence list \<Rightarrow> string" where
  "evidence_summary evs = join newline (map (\<lambda>e. ''- '' @ title e @ '': '' @ snippet e) evs)"

text \<open>
  \<^verbatim>\<open>result_text.replace("```json", "").replace("```", "").strip()\<close>, applied to the
  stripped response text.
\<close>

definition clean_response :: "string \<Rightarrow> string" where
  "clean_response text =
     (let result_text = strip text
      in strip (replace ''```'' [] (replace ''```json'' [] result_text)))"

text \<open>
  The guarded block of \<^verbatim>\<open>check\<close>. \<^verbatim>\<open>JSONDecodeError\<close> is a \<^verbatim>\<open>ValueError\<close>. The
  log line between parsing and returning evaluates \<^verbatim>\<open>len(claims)\<close>.
\<close>

definition check_body :: "env \<Rightarrow> string \<Rightarrow> Evidence list \<Rightarrow> exn + json list" where
  "check_body w topic evs =
     (case generate w 0 (FactCheckPrompt topic (evidence_summary evs)) of
        Inl e \<Rightarrow> Inl e
      | Inr text \<Rightarrow>
          (case json_loads w (clean_response text) of
             None \<Rightarrow> Inl ValueError
           | Some claims \<Rightarrow>
               (case py_len claims of
                  Inl e \<Rightarrow> Inl e
                | Inr n \<Rightarrow> Inr (case claims of JArr xs \<Rightarrow> xs | _ \<Rightarrow> [claims]))))"

text \<open>\<^verbatim>\<open>except Exception: return []\<close>.\<close>

definition check :: "env \<Rightarrow> string \<Rightarrow> Evidence list \<Rightarrow> json list" where
  "check w topic evs = (case check_body w topic evs of Inl e \<Rightarrow> [] | Inr claims \<Rightarrow> claims)"

subsection \<open>ExplainerAgent\<close>

definition evidence_text :: "Evidence list \<Rightarrow> string" where
  "evidence_text evs =
     join newline (map (\<lambda>e. ''- ['' @ title e @ '']('' @ url e @ '')'') (take 3 evs))"

text \<open>
  The claim and the reasoning are whatever the fact dictionary holds. The result is the
  response text, or \<^verbatim>\<open>reasoning\<close> itself when the call raises. \<open>k\<close> is the index of
  the language-model call.
\<close>

definition explain :: "env \<Rightarrow> nat \<Rightarrow> json \<Rightarrow> json \<Rightarrow> Evidence list \<Rightarrow> json" where
  "explain w k claim_v reasoning evs =
     (case generate w k (ExplainPrompt claim_v reasoning (evidence_text evs)) of
        Inl e \<Rightarrow> reasoning
      | Inr text \<Rightarrow> JStr text)"

subsection \<open>Constructing a ClaimAnalysis\<close>

text \<open>
  The validation of the model class: \<^verbatim>\<open>claim\<close> and \<^verbatim>\<open>explanation\<close> are \<^verbatim>\<open>str\<close> fields,
  which accept a string and nothing else that JSON can hold, and \<^verbatim>\<open>confidence\<close> carries
  \<^verbatim>\<open>ge=0.0, le=1.0\<close>, which a value outside the interval and the non-finite values
  fail. A failed validation raises. The other arguments are built by the coordinator and
  always pass.
\<close>

fun as_str :: "json \<Rightarrow> string option" where
  "as_str (JStr s) = Some s"
| "as_str _ = None"

fun in_unit_interval :: "pyfloat \<Rightarrow> real option" where
  "in_unit_interval (Finite r) = (if 0 \<le> r \<and> r \<le> 1 then Some r else None)"
| "in_unit_interval _ = None"

definition ClaimAnalysis_new ::
  "json \<Rightarrow> Verdict \<Rightarrow> pyfloat \<Rightarrow> json \<Rightarrow> Evidence list \<Rightarrow> nat \<Rightarrow> bool \<Rightarrow> exn + ClaimAnalysis" where
  "ClaimAnalysis_new claim_v vd conf expl evs t c =
     (case as_str claim_v of
        None \<Rightarrow> Inl ValidationError
      | Some cl \<Rightarrow>
          (case in_unit_interval conf of
             None \<Rightarrow> Inl ValidationError
           | Some r \<Rightarrow>
               (case as_str expl of
                  None \<Rightarrow> Inl ValidationError
                | Some ex \<Rightarrow>
                    Inr \<lparr>claim = cl, verdict = vd, confidence = r, explanation = ex,
                         evidence = evs, analyzed_at = t, cached = c\<rparr>)))"

subsection \<open>CoordinatorAgent\<close>

text \<open>
  The memory bank is used through its two methods; \<open>'m\<close> is its state.
  \<open>bank_get\<close> returns the looked-up value (\<open>None\<close> for Python's \<^verbatim>\<open>None\<close>) and the
  state after the call.
\<close>

record 'm bank =
  bank_get :: "'m \<Rightarrow> string \<Rightarrow> ClaimAnalysis list option \<times> 'm"
  bank_store :: "'m \<Rightarrow> string \<Rightarrow> ClaimAnalysis list \<Rightarrow> 'm"

text \<open>\<^verbatim>\<open>(high_cred_evidence or evidence)[:3]\<close>.\<close>

definition select_evidence :: "Evidence list \<Rightarrow> (string \<rightharpoonup> credibility) \<Rightarrow> Evidence list" where
  "select_evidence evs credibility_map =
     (let high_cred_evidence = filter (\<lambda>e. credibility_map (url e) = Some High) evs
      in take 3 (if high_cred_evidence \<noteq> [] then high_cred_evidence else evs))"

text \<open>The body of the loop over the facts, for the fact at index \<open>i\<close>.\<close>

definition analyze_fact ::
  "env \<Rightarrow> Evidence list \<Rightarrow> (string \<rightharpoonup> credibility) \<Rightarrow> nat \<Rightarrow> json \<Rightarrow> exn + ClaimAnalysis" where
  "analyze_fact w evs credibility_map i fct =
     (let selected_evidence = select_evidence evs credibility_map in
      case py_getitem fct ''claim'' of
        Inl e \<Rightarrow> Inl e
      | Inr claim_v \<Rightarrow>
          (case py_get fct ''reasoning'' (JStr []) of
             Inl e \<Rightarrow> Inl e
           | Inr reasoning \<Rightarrow>
               (let explanation_v = explain w (Suc i) claim_v reasoning selected_evidence in
                case py_get fct ''confidence'' (JFloat (Finite 0.8)) of
                  Inl e \<Rightarrow> Inl e
                | Inr conf_v \<Rightarrow>
                    (case py_float w conf_v of
                       Inl e \<Rightarrow> Inl e
                     | Inr conf \<Rightarrow>
                         ClaimAnalysis_new claim_v MISINFORMATION conf explanation_v
                           selected_evidence (now w i) False))))"

fun build_claims ::
  "env \<Rightarrow> Evidence list \<Rightarrow> (string \<rightharpoonup> credibility) \<Rightarrow> nat \<Rightarrow> json list \<Rightarrow> exn + ClaimAnalysis list" where
  "build_claims w evs cm i [] = Inr []"
| "build_claims w evs cm i (fct # facts) =
     (case analyze_fact w evs cm i fct of
        Inl e \<Rightarrow> Inl e
      | Inr c \<Rightarrow>
          (case build_claims w evs cm (Suc i) facts of
             Inl e \<Rightarrow> Inl e
           | Inr cs \<Rightarrow> Inr (c # cs)))"

text \<open>
  \<^verbatim>\<open>analyze\<close> after a cache miss, from step 2 on; \<open>m\<close> is the state of the memory bank
  after the lookup.
\<close>

definition analyze_miss :: "env \<Rightarrow> 'm bank \<Rightarrow> 'm \<Rightarrow> string \<Rightarrow> (exn + ClaimAnalysis list) \<times> 'm" where
  "analyze_miss w bank m topic =
     (case gather w topic of
        Inl e \<Rightarrow> (Inl e, m)
      | Inr evs \<Rightarrow>
          if evs = [] then (Inr [], m)
          else
            (case assess evs of
               Inl e \<Rightarrow> (Inl e, m)
             | Inr credibility_map \<Rightarrow>
                 (let fact_check_results = check w topic evs in
                  case build_claims w evs credibility_map 0 (take 3 fact_check_results) of
                    Inl e \<Rightarrow> (Inl e, m)
                  | Inr claims \<Rightarrow>
                      (Inr claims,
                       if claims \<noteq> [] then bank_store bank m topic claims else m))))"

text \<open>\<^verbatim>\<open>if cached_result:\<close> holds for a non-empty list only.\<close>

definition analyze :: "env \<Rightarrow> 'm bank \<Rightarrow> 'm \<Rightarrow> string \<Rightarrow> (exn + ClaimAnalysis list) \<times> 'm" where
  "analyze w bank m topic =
     (let (cached_result, m1) = bank_get bank m topic in
      case cached_result of
        None \<Rightarrow> analyze_miss w bank m1 topic
      | Some cs \<Rightarrow> if cs \<noteq> [] then (Inr cs, m1) else analyze_miss w bank m1 topic)"

subsection \<open>The cache signal of the API\<close>

text \<open>\<^verbatim>\<open>cached = any(claim.cached for claim in claims) if claims else False\<close>.\<close>

definition response_cached :: "ClaimAnalysis list \<Rightarrow> bool" where
  "response_cached claims = (if claims \<noteq> [] then list_ex cached claims else False)"

subsection \<open>MemoryBank\<close>

text \<open>
  Modelled from the spec: the class \<^verbatim>\<open>MemoryBank\<close> of \<^verbatim>\<open>src/memory/memory_bank.py\<close> is
  not among the sources. The spec gives it as a topic-keyed store with exact-string
  keys, \<^verbatim>\<open>get(topic)\<close> returning the stored sequence or "absent", \<^verbatim>\<open>store(topic, claims)\<close>
  writing the entry, no eviction, and statistics made of the entry count and hit and
  miss counters.
\<close>

record memory_bank =
  entries :: "string \<rightharpoonup> ClaimAnalysis list"
  hits :: nat
  misses :: nat

definition empty_bank :: memory_bank where
  "empty_bank = \<lparr>entries = Map.empty, hits = 0, misses = 0\<rparr>"

definition mb_get :: "memory_bank \<Rightarrow> string \<Rightarrow> ClaimAnalysis list option \<times> memory_bank" where
  "mb_get mb topic =
     (case entries mb topic of
        None \<Rightarrow> (None, mb\<lparr>misses := misses mb + 1\<rparr>)
      | Some cs \<Rightarrow> (Some cs, mb\<lparr>hits := hits mb + 1\<rparr>))"

definition mb_store :: "memory_bank \<Rightarrow> string \<Rightarrow> ClaimAnalysis list \<Rightarrow> memory_bank" where
  "mb_store mb topic claims = mb\<lparr>entries := (entries mb)(topic \<mapsto> claims)\<rparr>"

definition MemoryBank :: "memory_bank bank" where
  "MemoryBank = \<lparr>bank_get = mb_get, bank_store = mb_store\<rparr>"

text \<open>The states of the memory bank that runs of the coordinator can produce.\<close>

inductive reachable :: "memory_bank \<Rightarrow> bool" where
  initial: "reachable empty_bank"
| run: "reachable mb \<Longrightarrow> reachable (snd (analyze w MemoryBank mb topic))"

subsection \<open>Specification-level notions\<close>

text \<open>
  The gatherer in the spec's words: the hits that carry a non-empty URL, converted to
  evidence, and of those the first one for each URL.
\<close>

definition usable :: "search_result \<Rightarrow> bool" where
  "usable r = (case href r of None \<Rightarrow> False | Some u \<Rightarrow> u \<noteq> [])"

definition to_evidence :: "search_result \<Rightarrow> Evidence" where
  "to_evidence r =
     \<lparr>title = (case result_title r of None \<Rightarrow> ''Unknown'' | Some t \<Rightarrow> t),
      url = (case href r of None \<Rightarrow> [] | Some u \<Rightarrow> u),
      snippet = take 200 (case body r of None \<Rightarrow> [] | Some b \<Rightarrow> b)\<rparr>"

definition merged :: "search_result list \<Rightarrow> Evidence list" where
  "merged rs = map to_evidence (filter usable rs)"

fun first_by_url :: "Evidence list \<Rightarrow> Evidence list" where
  "first_by_url [] = []"
| "first_by_url (e # es) = e # first_by_url (filter (\<lambda>x. url x \<noteq> url e) es)"

text \<open>The lookup of \<^verbatim>\<open>analyze\<close> found nothing it can return.\<close>

definition cache_miss :: "'m bank \<Rightarrow> 'm \<Rightarrow> string \<Rightarrow> bool" where
  "cache_miss bank m topic =
     (case fst (bank_get bank m topic) of None \<Rightarrow> True | Some cs \<Rightarrow> cs = [])"

text \<open>
  A fact from which a \<^verbatim>\<open>ClaimAnalysis\<close> can be built: a dictionary with a string
  \<^verbatim>\<open>claim\<close>, a \<^verbatim>\<open>reasoning\<close> that is absent or a string, and a \<^verbatim>\<open>confidence\<close> that is
  absent or converts to a float within the unit interval.
\<close>

definition well_shaped :: "env \<Rightarrow> json \<Rightarrow> bool" where
  "well_shaped w f =
     (case f of
        JObj kvs \<Rightarrow>
          (case map_of kvs ''claim'' of Some (JStr s) \<Rightarrow> True | _ \<Rightarrow> False)
          \<and> (case map_of kvs ''reasoning'' of None \<Rightarrow> True | Some (JStr s) \<Rightarrow> True | _ \<Rightarrow> False)
          \<and> (case map_of kvs ''confidence'' of
               None \<Rightarrow> True
             | Some v \<Rightarrow> (case py_float w v of
                            Inl e \<Rightarrow> False
                          | Inr x \<Rightarrow> in_unit_interval x \<noteq> None))
      | _ \<Rightarrow> False)"

subsection \<open>Example environments\<close>

text \<open>
  Concrete collaborators, for evaluating the coordinator. The \<open>json_loads\<close> of an example
  gives the parse of the reply that occurs in it and is not consulted on any other text;
  no example converts a string to a float. In every example the search for a longer query
  ends earlier, so the searches end in the reverse of the order of the queries.

  A search backend with a duplicate URL across queries, a hit without URL and a hit with
  an empty URL.
\<close>

definition demo_search :: "string \<Rightarrow> nat \<Rightarrow> exn + search_result list" where
  "demo_search q n =
     (if q = ''moon''
      then Inr [\<lparr>href = Some ''https://a.org/1'', result_title = Some ''A'', body = Some ''first''\<rparr>,
                \<lparr>href = None, result_title = Some ''N'', body = None\<rparr>]
      else if q = ''moon fact check''
      then Inr [\<lparr>href = Some ''https://b.gov/2'', result_title = None, body = None\<rparr>,
                \<lparr>href = Some ''https://a.org/1'', result_title = Some ''A2'', body = Some ''again''\<rparr>]
      else Inr [\<lparr>href = Some [], result_title = Some ''E'', body = Some ''e''\<rparr>,
                \<lparr>href = Some ''https://b.gov/2'', result_title = Some ''B2'', body = Some ''dup''\<rparr>])"

text \<open>
  A run in which the fact checker answers with a fenced JSON array of two facts, the
  first explainer call fails and the second succeeds.
\<close>

definition story_reply :: string where
  \<open>story_reply = ''```json [{"claim": "The moon is cheese", "reasoning": "It is rock", "confidence": 0.9}, {"claim": "The moon is flat", "reasoning": "It is round"}] ```''\<close>

definition story_json :: string where
  \<open>story_json = ''[{"claim": "The moon is cheese", "reasoning": "It is rock", "confidence": 0.9}, {"claim": "The moon is flat", "reasoning": "It is round"}]''\<close>

definition story_facts :: "json list" where
  "story_facts =
     [JObj [(''claim'', JStr ''The moon is cheese''), (''reasoning'', JStr ''It is rock''),
            (''confidence'', JFloat (Finite 0.9))],
      JObj [(''claim'', JStr ''The moon is flat''), (''reasoning'', JStr ''It is round'')]]"

definition story_env :: env where
  "story_env =
     \<lparr>search = demo_search,
      finished_at = (\<lambda>q. 100 - length q),
      generate = (\<lambda>k p. if k = 0 then Inr story_reply
                        else if k = 1 then Inl CollaboratorError
                        else Inr ''Not so.''),
      json_loads = (\<lambda>s. if s = story_json then Some (JArr story_facts) else None),
      float_of_str = (\<lambda>s. None),
      now = (\<lambda>i. 1000 + i)\<rparr>"

definition story_evidence :: "Evidence list" where
  "story_evidence =
     [\<lparr>title = ''A'', url = ''https://a.org/1'', snippet = ''first''\<rparr>,
      \<lparr>title = ''Unknown'', url = ''https://b.gov/2'', snippet = ''''\<rparr>]"

definition story_claims :: "ClaimAnalysis list" where
  "story_claims =
     [\<lparr>claim = ''The moon is cheese'', verdict = MISINFORMATION, confidence = 0.9,
       explanation = ''It is rock'',
       evidence = [\<lparr>title = ''Unknown'', url = ''https://b.gov/2'', snippet = ''''\<rparr>],
       analyzed_at = 1000, cached = False\<rparr>,
      \<lparr>claim = ''The moon is flat'', verdict = MISINFORMATION, confidence = 0.8,
       explanation = ''Not so.'',
       evidence = [\<lparr>title = ''Unknown'', url = ''https://b.gov/2'', snippet = ''''\<rparr>],
       analyzed_at = 1001, cached = False\<rparr>]"

text \<open>The fact checker answers with an object that has no \<^verbatim>\<open>claim\<close> key.\<close>

definition keyless_reply :: string where
  \<open>keyless_reply = ''[{"verdict": "MISINFORMATION"}]''\<close>

definition keyless_env :: env where
  "keyless_env =
     \<lparr>search = demo_search,
      finished_at = (\<lambda>q. 100 - length q),
      generate = (\<lambda>k p. Inr keyless_reply),
      json_loads = (\<lambda>s. if s = keyless_reply
                         then Some (JArr [JObj [(''verdict'', JStr ''MISINFORMATION'')]])
                         else None),
      float_of_str = (\<lambda>s. None),
      now = (\<lambda>i. 1000 + i)\<rparr>"

text \<open>The fact checker answers with a confidence of 1.5.\<close>

definition overconfident_reply :: string where
  \<open>overconfident_reply = ''[{"claim": "The moon is cheese", "confidence": 1.5}]''\<close>

definition overconfident_env :: env where
  "overconfident_env =
     \<lparr>search = demo_search,
      finished_at = (\<lambda>q. 100 - length q),
      generate = (\<lambda>k p. Inr overconfident_reply),
      json_loads = (\<lambda>s. if s = overconfident_reply
                         then Some (JArr [JObj [(''claim'', JStr ''The moon is cheese''),
                                                (''confidence'', JFloat (Finite 1.5))]])
                         else None),
      float_of_str = (\<lambda>s. None),
      now = (\<lambda>i. 1000 + i)\<rparr>"

text \<open>
  The fact checker answers with two facts, the second with \<^verbatim>\<open>null\<close> for its reasoning;
  every explainer call succeeds.
\<close>

definition null_reasoning_reply :: string where
  \<open>null_reasoning_reply = ''[{"claim": "The moon is cheese", "reasoning": "It is rock"}, {"claim": "The moon is flat", "reasoning": null}]''\<close>

definition null_reasoning_env :: env where
  "null_reasoning_env =
     \<lparr>search = demo_search,
      finished_at = (\<lambda>q. 100 - length q),
      generate = (\<lambda>k p. if k = 0 then Inr null_reasoning_reply else Inr ''Not so.''),
      json_loads = (\<lambda>s. if s = null_reasoning_reply
                         then Some (JArr [JObj [(''claim'', JStr ''The moon is cheese''),
                                                (''reasoning'', JStr ''It is rock'')],
                                          JObj [(''claim'', JStr ''The moon is flat''),
                                                (''reasoning'', JNull)]])
                         else None),
      float_of_str = (\<lambda>s. None),
      now = (\<lambda>i. 1000 + i)\<rparr>"

text \<open>The fact checker answers with the JSON number 42.\<close>

definition numeric_reply_env :: env where
  "numeric_reply_env =
     \<lparr>search = (\<lambda>q n. Inr []),
      finished_at = (\<lambda>q. 100 - length q),
      generate = (\<lambda>k p. Inr ''42''),
      json_loads = (\<lambda>s. if s = ''42'' then Some (JInt 42) else None),
      float_of_str = (\<lambda>s. None),
      now = (\<lambda>i. 0)\<rparr>"

text \<open>The fact checker answers with text that is not JSON.\<close>

definition garbled_env :: env where
  "garbled_env =
     \<lparr>search = demo_search,
      finished_at = (\<lambda>q. 100 - length q),
      generate = (\<lambda>k p. Inr ''not json''),
      json_loads = (\<lambda>s. None),
      float_of_str = (\<lambda>s. None),
      now = (\<lambda>i. i)\<rparr>"

text \<open>A search backend that finds nothing, and a language model that is unreachable.\<close>

definition silent_env :: env where
  "silent_env =
     \<lparr>search = (\<lambda>q n. Inr []),
      finished_at = (\<lambda>q. 100 - length q),
      generate = (\<lambda>k p. Inl CollaboratorError),
      json_loads = (\<lambda>s. None),
      float_of_str = (\<lambda>s. None),
      now = (\<lambda>i. i)\<rparr>"

definition offline_env :: env where
  "offline_env =
     \<lparr>search = demo_search,
      finished_at = (\<lambda>q. 100 - length q),
      generate = (\<lambda>k p. Inl CollaboratorError),
      json_loads = (\<lambda>s. None),
      float_of_str = (\<lambda>s. None),
      now = (\<lambda>i. i)\<rparr>"

section \<open>Properties\<close>

subsection \<open>String operations\<close>

declare replace.simps [simp del]

lemma replace_Nil: "old \<noteq> [] \<Longrightarrow> replace old new [] = []"
  by (simp add: replace.simps)

lemma replace_match: "old \<noteq> [] \<Longrightarrow> replace old new (old @ s) = new @ replace old new s"
  by (subst replace.simps) simp

lemma replace_skip:
  "old \<noteq> [] \<Longrightarrow> hd old \<notin> set s \<Longrightarrow> replace old new (s @ t) = s @ replace old new t"
proof (induction s)
  case Nil
  then show ?case by simp
next
  case (Cons c s)
  then have "take (length old) (c # s @ t) \<noteq> old"
    by (cases old) auto
  with Cons show ?case
    by (subst replace.simps) simp
qed

lemma replace_step:
  "old \<noteq> [] \<Longrightarrow> take (length old) (c # s) \<noteq> old \<Longrightarrow>
     replace old new (c # s) = c # replace old new s"
  by (subst replace.simps) simp

lemma json_fence_rest: "replace ''```json'' [] ''```'' = ''```''"
  by (simp add: replace.simps)

lemma plain_fence_only: "replace ''```'' [] ''```'' = []"
  by (simp add: replace.simps)

lemma lstrip_spaces:
  "list_all is_space ws \<Longrightarrow> \<not> is_space c \<Longrightarrow> lstrip (ws @ c # s) = c # s"
  by (simp add: lstrip_def list_all_iff)

lemma rstrip_spaces:
  assumes "list_all is_space ws" and "\<not> is_space c"
  shows "rstrip (s @ c # ws) = s @ [c]"
proof -
  have "dropWhile is_space (rev ws @ c # rev s) = dropWhile is_space (c # rev s)"
    by (rule dropWhile_append2) (use assms(1) in \<open>simp add: list_all_iff\<close>)
  with assms(2) show ?thesis by (simp add: rstrip_def)
qed

lemma strip_spaces:
  assumes "list_all is_space ws1" and "list_all is_space ws2"
    and "\<not> is_space a" and "\<not> is_space b"
  shows "strip (ws1 @ a # s @ b # ws2) = a # s @ [b]"
proof -
  have "lstrip (ws1 @ a # s @ b # ws2) = a # s @ b # ws2"
    using assms(1,3) by (rule lstrip_spaces)
  moreover have "rstrip ((a # s) @ b # ws2) = (a # s) @ [b]"
    using assms(2,4) by (rule rstrip_spaces)
  ultimately show ?thesis by (simp add: strip_def)
qed

lemma tick_not_space: "\<not> is_space (CHR 0x60)"
  by (simp add: is_space_def)

lemma set_strip: "set (strip s) \<subseteq> set s"
  by (auto simp: strip_def lstrip_def rstrip_def dest!: set_dropWhileD)

text \<open>
  A response wrapped in a \<^verbatim>\<open>```json\<close> fence, or in a plain fence, is reduced to its
  stripped content; a response without backticks is only stripped.
\<close>

lemma clean_json_fence:
  assumes "CHR 0x60 \<notin> set inner" and "list_all is_space ws1" and "list_all is_space ws2"
  shows "clean_response (ws1 @ ''```json'' @ inner @ ''```'' @ ws2) = strip inner"
proof -
  have "strip (ws1 @ CHR 0x60 # (''``json'' @ inner @ ''``'') @ CHR 0x60 # ws2)
          = CHR 0x60 # (''``json'' @ inner @ ''``'') @ [CHR 0x60]"
    using assms(2,3) tick_not_space tick_not_space by (rule strip_spaces)
  then have s: "strip (ws1 @ ''```json'' @ inner @ ''```'' @ ws2) = ''```json'' @ inner @ ''```''"
    by simp
  have "replace ''```json'' [] (''```json'' @ inner @ ''```'') = replace ''```json'' [] (inner @ ''```'')"
    using replace_match[of "''```json''" "[]" "inner @ ''```''"] by simp
  also have "\<dots> = inner @ replace ''```json'' [] ''```''"
    using assms(1) by (intro replace_skip) simp_all
  finally have r1: "replace ''```json'' [] (''```json'' @ inner @ ''```'') = inner @ ''```''"
    by (simp add: json_fence_rest)
  have "replace ''```'' [] (inner @ ''```'') = inner @ replace ''```'' [] ''```''"
    using assms(1) by (intro replace_skip) simp_all
  then have r2: "replace ''```'' [] (inner @ ''```'') = inner"
    by (simp add: plain_fence_only)
  show ?thesis
    unfolding clean_response_def Let_def s r1 r2 ..
qed

lemma plain_fence_open:
  assumes "CHR 0x60 \<notin> set inner" and "take 4 inner \<noteq> ''json''"
  shows "replace ''```json'' [] (''```'' @ inner @ ''```'') = ''```'' @ inner @ ''```''"
proof (cases inner)
  case Nil
  then show ?thesis by (simp add: replace.simps)
next
  case (Cons b bs)
  with assms(1) have b: "b \<noteq> CHR 0x60" and bs: "CHR 0x60 \<notin> set bs" by auto
  have no4: "take 4 (inner @ ''```'') \<noteq> ''json''"
  proof
    assume eq: "take 4 (inner @ ''```'') = ''json''"
    show False
    proof (cases "4 \<le> length inner")
      case True
      with eq assms(2) show False by simp
    next
      case False
      then obtain k where k: "4 - length inner = Suc k"
        by (cases "4 - length inner") auto
      from False k have "take 4 (inner @ ''```'') = inner @ CHR 0x60 # take k ''``''"
        by simp
      with eq have "CHR 0x60 \<in> set ''json''"
        by (metis in_set_conv_decomp)
      then show False by simp
    qed
  qed
  have "take (length ''```json'') (CHR 0x60 # ''``'' @ inner @ ''```'') \<noteq> ''```json''"
  proof
    assume "take (length ''```json'') (CHR 0x60 # ''``'' @ inner @ ''```'') = ''```json''"
    then have "take 4 (inner @ ''```'') = ''json''" by (simp add: numeral_eq_Suc)
    with no4 show False ..
  qed
  then have "replace ''```json'' [] (CHR 0x60 # ''``'' @ inner @ ''```'')
          = CHR 0x60 # replace ''```json'' [] (''``'' @ inner @ ''```'')"
    by (intro replace_step) simp_all
  also have "replace ''```json'' [] (''``'' @ inner @ ''```'')
          = CHR 0x60 # replace ''```json'' [] (''`'' @ inner @ ''```'')"
    using b Cons replace_step[of "''```json''" "CHR 0x60" "''`'' @ inner @ ''```''" "[]"] by simp
  also have "replace ''```json'' [] (''`'' @ inner @ ''```'')
          = CHR 0x60 # replace ''```json'' [] (inner @ ''```'')"
    using b Cons replace_step[of "''```json''" "CHR 0x60" "inner @ ''```''" "[]"] by simp
  also have "replace ''```json'' [] (inner @ ''```'') = inner @ replace ''```json'' [] ''```''"
    using assms(1) by (intro replace_skip) simp_all
  finally show ?thesis by (simp add: json_fence_rest)
qed

lemma clean_plain_fence:
  assumes "CHR 0x60 \<notin> set inner" and "take 4 inner \<noteq> ''json''"
    and "list_all is_space ws1" and "list_all is_space ws2"
  shows "clean_response (ws1 @ ''```'' @ inner @ ''```'' @ ws2) = strip inner"
proof -
  have "strip (ws1 @ CHR 0x60 # (''``'' @ inner @ ''``'') @ CHR 0x60 # ws2)
          = CHR 0x60 # (''``'' @ inner @ ''``'') @ [CHR 0x60]"
    using assms(3,4) tick_not_space tick_not_space by (rule strip_spaces)
  then have s: "strip (ws1 @ ''```'' @ inner @ ''```'' @ ws2) = ''```'' @ inner @ ''```''"
    by simp
  note r1 = plain_fence_open[OF assms(1,2)]
  have "replace ''```'' [] (''```'' @ inner @ ''```'') = replace ''```'' [] (inner @ ''```'')"
    using replace_match[of "''```''" "[]" "inner @ ''```''"] by simp
  also have "\<dots> = inner @ replace ''```'' [] ''```''"
    using assms(1) by (intro replace_skip) simp_all
  finally have r2: "replace ''```'' [] (''```'' @ inner @ ''```'') = inner"
    by (simp add: plain_fence_only)
  show ?thesis
    unfolding clean_response_def Let_def s r1 r2 ..
qed

lemma clean_no_fence:
  assumes "CHR 0x60 \<notin> set s"
  shows "clean_response s = strip (strip s)"
proof -
  from assms set_strip[of s] have t: "CHR 0x60 \<notin> set (strip s)" by blast
  have "replace ''```json'' [] (strip s @ []) = strip s @ replace ''```json'' [] []"
    using t by (intro replace_skip) simp_all
  then have r1: "replace ''```json'' [] (strip s) = strip s" by (simp add: replace_Nil)
  have "replace ''```'' [] (strip s @ []) = strip s @ replace ''```'' [] []"
    using t by (intro replace_skip) simp_all
  then have r2: "replace ''```'' [] (strip s) = strip s" by (simp add: replace_Nil)
  show ?thesis by (simp add: clean_response_def r1 r2)
qed

subsection \<open>CredibilityAssessorAgent\<close>

text \<open>
  The examples of the spec.
\<close>

lemma bbc_high: "assess [\<lparr>title = ''t'', url = ''https://www.bbc.com/news/x'', snippet = ''''\<rparr>] = Inr [''https://www.bbc.com/news/x'' \<mapsto> High]"
  by (simp add: assess_def domain_of_def classify_def lower_def lower_char_def trusted_markers_def char_of_eq_iff)

lemma wordpress_low: "domain_of ''https://my.wordpress.com/post'' = Inr ''my.wordpress.com'' \<and> classify ''my.wordpress.com'' = Low"
  by (simp add: assess_def domain_of_def classify_def lower_def lower_char_def trusted_markers_def untrusted_markers_def char_of_eq_iff)

lemma example_medium: "domain_of ''https://example.org/x'' = Inr ''example.org'' \<and> classify ''example.org'' = Medium"
  by (simp add: assess_def domain_of_def classify_def lower_def lower_char_def trusted_markers_def untrusted_markers_def char_of_eq_iff)

text \<open>
  Where every URL has no slash or at least two, \<^verbatim>\<open>assess\<close> returns a mapping whose keys
  are the input URLs and whose values follow the classification of the domain.
\<close>

lemma assess_loop_Inr:
  "\<forall>e \<in> set evs. \<exists>d. domain_of (url e) = Inr d \<Longrightarrow> \<exists>cm. assess_loop evs m = Inr cm"
  by (induction evs arbitrary: m) auto

lemma assess_loop_dom:
  "assess_loop evs m = Inr cm \<Longrightarrow> dom cm = dom m \<union> url ` set evs"
  by (induction evs arbitrary: m) (auto split: sum.splits)

lemma assess_loop_old:
  "assess_loop evs m = Inr cm \<Longrightarrow> u \<notin> url ` set evs \<Longrightarrow> cm u = m u"
  by (induction evs arbitrary: m) (auto split: sum.splits)

lemma assess_loop_value:
  "assess_loop evs m = Inr cm \<Longrightarrow> e \<in> set evs \<Longrightarrow>
     \<exists>d. domain_of (url e) = Inr d \<and> cm (url e) = Some (classify d)"
proof (induction evs arbitrary: m e)
  case Nil
  then show ?case by simp
next
  case (Cons a evs)
  then obtain d where d: "domain_of (url a) = Inr d"
    and rest: "assess_loop evs (m(url a \<mapsto> classify d)) = Inr cm"
    by (auto split: sum.splits)
  show ?case
  proof (cases "url e \<in> url ` set evs")
    case True
    then obtain b where b: "b \<in> set evs" "url b = url e" by auto
    from Cons.IH[OF rest b(1)] b(2) show ?thesis by simp
  next
    case False
    with Cons.prems have "e = a" by auto
    with assess_loop_old[OF rest False] d show ?thesis by simp
  qed
qed

lemma assess_succeeds:
  assumes "\<And>e. e \<in> set evs \<Longrightarrow> CHR ''/'' \<notin> set (url e) \<or> 2 < length (split CHR ''/'' (url e))"
  shows "\<exists>cm. assess evs = Inr cm"
  unfolding assess_def
  by (rule assess_loop_Inr) (use assms in \<open>auto simp: domain_of_def\<close>)

lemma assess_mapping:
  assumes "assess evs = Inr cm"
  shows "dom cm = url ` set evs"
    and "e \<in> set evs \<Longrightarrow> \<exists>d. domain_of (url e) = Inr d \<and> cm (url e) = Some (classify d)"
  using assms assess_loop_dom[of evs Map.empty cm] assess_loop_value[of evs Map.empty cm e]
  by (simp_all add: assess_def)

text \<open>
  C2. The claim: for every sequence of evidence, \<^verbatim>\<open>assess\<close> returns a mapping over
  exactly the input URLs, the domain being the segment at index 2 of the URL split at
  slashes, or the whole URL when it has no slash. The code guards the subscript with
  \<^verbatim>\<open>'/' in ev.url\<close> only: for a URL with exactly one slash the split has two segments
  and the subscript raises, so no mapping is returned.
\<close>

theorem assess_one_slash_raises:
  "assess [\<lparr>title = ''t'', url = ''example.com/page'', snippet = ''''\<rparr>] = Inl IndexError"
  by (simp add: assess_def domain_of_def)

subsection \<open>EvidenceGathererAgent\<close>

text \<open>
  \<^verbatim>\<open>gather\<close> raises exactly when one of its searches does, and then with the exception of
  one of them.
\<close>

lemma first_raised_cases:
  "first_raised best rs = best \<or> (\<exists>t e. (t, Inl e) \<in> set rs \<and> first_raised best rs = Some (t, e))"
proof (induction best rs rule: first_raised.induct)
  case (1 best)
  then show ?case by simp
next
  case (2 best t x rs)
  then show ?case by auto
next
  case (3 best t e rs)
  then show ?case by (auto split: option.splits if_splits)
qed

lemma first_raised_Some: "best \<noteq> None \<Longrightarrow> first_raised best rs \<noteq> None"
  by (induction best rs rule: first_raised.induct) (auto split: option.splits)

lemma first_raised_failure: "(t, Inl e) \<in> set rs \<Longrightarrow> first_raised best rs \<noteq> None"
proof (induction best rs rule: first_raised.induct)
  case (1 best)
  then show ?case by simp
next
  case (2 best t' x rs)
  then show ?case by auto
next
  case (3 best t' e' rs)
  have "(case best of
           None \<Rightarrow> Some (t', e')
         | Some (t'', e'') \<Rightarrow> if t' < t'' then Some (t', e') else Some (t'', e'')) \<noteq> None"
    by (simp split: option.splits)
  then show ?case by (simp add: first_raised_Some)
qed

lemma gather_raises_of_search:
  assumes "gather w topic = Inl e"
  shows "\<exists>query \<in> set (queries topic). search w query 3 = Inl e"
proof -
  let ?rs = "zip (map (finished_at w) (queries topic)) (map (\<lambda>query. search w query 3) (queries topic))"
  from assms obtain t where "first_raised None ?rs = Some (t, e)"
    by (auto simp: gather_def gather_results_def split: option.splits)
  with first_raised_cases[of None ?rs] have "(t, Inl e) \<in> set ?rs" by auto
  then have "Inl e \<in> set (map (\<lambda>query. search w query 3) (queries topic))"
    by (rule set_zip_rightD)
  then show ?thesis by auto
qed

lemma search_failure_raises:
  assumes "query \<in> set (queries topic)" and "search w query 3 = Inl e"
  shows "\<exists>e'. gather w topic = Inl e'"
proof -
  let ?rs = "zip (map (finished_at w) (queries topic)) (map (\<lambda>query. search w query 3) (queries topic))"
  have "?rs = map (\<lambda>query. (finished_at w query, search w query 3)) (queries topic)"
    by (simp add: zip_map_map zip_same_conv_map)
  with assms have "(finished_at w query, Inl e) \<in> set ?rs" by force
  from first_raised_failure[OF this, of None] show ?thesis
    by (auto simp: gather_def gather_results_def split: option.splits)
qed

lemma inner_loop_append: "inner_loop (rs @ rs') st = inner_loop rs' (inner_loop rs st)"
  by (induction rs arbitrary: st) auto

lemma outer_loop_concat: "outer_loop rss st = inner_loop (concat rss) st"
  by (induction rss arbitrary: st) (auto simp: inner_loop_append)

lemma inner_loop_spec:
  "fst (inner_loop rs (acc, S)) = acc @ first_by_url (filter (\<lambda>e. url e \<notin> S) (merged rs))"
proof (induction rs arbitrary: acc S)
  case Nil
  then show ?case by (simp add: merged_def)
next
  case (Cons r rs)
  show ?case
  proof (cases "usable r \<and> url (to_evidence r) \<notin> S")
    case True
    then obtain u where u: "href r = Some u" "u \<noteq> []" "u \<notin> S"
      by (auto simp: usable_def to_evidence_def split: option.splits)
    have step: "add_result r (acc, S) = (acc @ [to_evidence r], insert u S)"
      using u by (simp add: add_result_def to_evidence_def)
    have "filter (\<lambda>e. url e \<notin> insert u S) (merged rs)
            = filter (\<lambda>x. url x \<noteq> u) (filter (\<lambda>e. url e \<notin> S) (merged rs))"
      by (auto intro: filter_cong)
    with Cons.IH[of "acc @ [to_evidence r]" "insert u S"] step True u show ?thesis
      by (simp add: merged_def to_evidence_def)
  next
    case False
    then have step: "add_result r (acc, S) = (acc, S)"
      by (auto simp: add_result_def usable_def to_evidence_def split: option.splits)
    with Cons.IH[of acc S] False show ?thesis
      by (auto simp: merged_def)
  qed
qed

lemma set_first_by_url: "set (first_by_url es) \<subseteq> set es"
  by (induction es rule: first_by_url.induct) auto

lemma distinct_first_by_url: "distinct (map url (first_by_url es))"
proof (induction es rule: first_by_url.induct)
  case 1
  then show ?case by simp
next
  case (2 e es)
  have "url e \<notin> url ` set (first_by_url (filter (\<lambda>x. url x \<noteq> url e) es))"
    using set_first_by_url[of "filter (\<lambda>x. url x \<noteq> url e) es"] by auto
  with 2 show ?case by simp
qed

lemma find_first_by_url:
  "e \<in> set (first_by_url es) \<Longrightarrow> find (\<lambda>x. url x = url e) es = Some e"
proof (induction es rule: first_by_url.induct)
  case 1
  then show ?case by simp
next
  case (2 a es)
  show ?case
  proof (cases "e = a")
    case True
    then show ?thesis by simp
  next
    case False
    with "2.prems" have mem: "e \<in> set (first_by_url (filter (\<lambda>x. url x \<noteq> url a) es))" by simp
    with set_first_by_url[of "filter (\<lambda>x. url x \<noteq> url a) es"] have ne: "url e \<noteq> url a" by auto
    have "find (\<lambda>x. url x = url e) (filter (\<lambda>x. url x \<noteq> url a) es) = find (\<lambda>x. url x = url e) es"
      using ne by (induction es) auto
    with "2.IH"[OF mem] ne show ?thesis by auto
  qed
qed

text \<open>
  C3. When the three searches return, \<^verbatim>\<open>gather\<close> has issued exactly the queries
  \<open>topic\<close>, \<open>topic fact check\<close> and \<open>topic misinformation analysis\<close>, and returns the hits
  merged in the order of the queries, at whatever times the searches ended, reduced to the
  first occurrence of each URL, and cut to the first 8: at most 8 items, no URL twice, each item the first one with its URL
  in the merged sequence, each snippet of at most 200 characters.
\<close>

theorem gather_merges_dedups_truncates:
  assumes "search w topic 3 = Inr r1"
    and "search w (topic @ '' fact check'') 3 = Inr r2"
    and "search w (topic @ '' misinformation analysis'') 3 = Inr r3"
  shows "queries topic = [topic, topic @ '' fact check'', topic @ '' misinformation analysis'']
    \<and> (let all_merged = merged (r1 @ r2 @ r3); out = take 8 (first_by_url all_merged)
       in gather w topic = Inr out
        \<and> length out \<le> 8
        \<and> distinct (map url out)
        \<and> (\<forall>e \<in> set out. find (\<lambda>x. url x = url e) all_merged = Some e
                          \<and> length (snippet e) \<le> 200))"
proof -
  let ?m = "merged (r1 @ r2 @ r3)"
  let ?out = "take 8 (first_by_url ?m)"
  have g: "gather w topic = Inr ?out"
    using assms inner_loop_spec[of "r1 @ r2 @ r3" "[]" "{}"]
    by (simp add: gather_def queries_def gather_results_def outer_loop_concat)
  have d: "distinct (map url ?out)"
    using distinct_first_by_url[of ?m] by (simp add: take_map[symmetric])
  have s: "length (snippet e) \<le> 200" if "e \<in> set ?m" for e
    using that by (auto simp: merged_def to_evidence_def)
  have sub: "set ?out \<subseteq> set (first_by_url ?m)"
    by (rule set_take_subset)
  have f: "find (\<lambda>x. url x = url e) ?m = Some e \<and> length (snippet e) \<le> 200" if "e \<in> set ?out" for e
    using that sub find_first_by_url[of e ?m] set_first_by_url[of ?m] s by blast
  show ?thesis
    using g d f by (simp add: queries_def Let_def)
qed

lemma demo_search_gather: "search w = demo_search \<Longrightarrow> gather w ''moon'' = Inr story_evidence"
  by (simp add: gather_def queries_def gather_results_def demo_search_def add_result_def
      story_evidence_def)

theorem gather_merges_dedups_truncates_witness:
  "gather story_env ''moon'' =
     Inr [\<lparr>title = ''A'', url = ''https://a.org/1'', snippet = ''first''\<rparr>,
          \<lparr>title = ''Unknown'', url = ''https://b.gov/2'', snippet = ''''\<rparr>]"
  using gather_merges_dedups_truncates[of story_env "''moon''"
      "[\<lparr>href = Some ''https://a.org/1'', result_title = Some ''A'', body = Some ''first''\<rparr>,
        \<lparr>href = None, result_title = Some ''N'', body = None\<rparr>]"
      "[\<lparr>href = Some ''https://b.gov/2'', result_title = None, body = None\<rparr>,
        \<lparr>href = Some ''https://a.org/1'', result_title = Some ''A2'', body = Some ''again''\<rparr>]"
      "[\<lparr>href = Some [], result_title = Some ''E'', body = Some ''e''\<rparr>,
        \<lparr>href = Some ''https://b.gov/2'', result_title = Some ''B2'', body = Some ''dup''\<rparr>]"]
  by (simp add: story_env_def demo_search_def merged_def usable_def to_evidence_def Let_def)

lemma story_gather: "gather story_env ''moon'' = Inr story_evidence"
  by (rule demo_search_gather) (simp add: story_env_def)

lemma story_assess:
  "assess story_evidence = Inr [''https://a.org/1'' \<mapsto> Medium, ''https://b.gov/2'' \<mapsto> High]"
  by (simp add: assess_def story_evidence_def domain_of_def classify_def lower_def lower_char_def
      trusted_markers_def untrusted_markers_def char_of_eq_iff)

subsection \<open>FactCheckerAgent\<close>

lemma story_clean: "clean_response story_reply = story_json"
proof -
  have "clean_response ([] @ ''```json'' @ ('' '' @ story_json @ '' '') @ ''```'' @ []) = strip ('' '' @ story_json @ '' '')"
    by (rule clean_json_fence) (simp_all add: story_json_def)
  moreover have "strip ('' '' @ story_json @ '' '') = story_json"
    by (simp add: strip_def lstrip_def rstrip_def is_space_def story_json_def)
  ultimately show ?thesis by (simp add: story_reply_def story_json_def)
qed

lemma story_check: "check story_env topic evs = story_facts"
  by (simp add: check_def check_body_def story_env_def story_clean story_facts_def)

lemma keyless_clean: "clean_response keyless_reply = keyless_reply"
  by (simp add: clean_no_fence keyless_reply_def strip_def lstrip_def rstrip_def is_space_def)

lemma overconfident_clean: "clean_response overconfident_reply = overconfident_reply"
  by (simp add: clean_no_fence overconfident_reply_def strip_def lstrip_def rstrip_def is_space_def)

lemma clean_42: "clean_response ''42'' = ''42''"
  by (simp add: clean_no_fence strip_def lstrip_def rstrip_def is_space_def)

text \<open>
  C8. \<^verbatim>\<open>check\<close> parses the response with its surrounding code fence removed: for a
  response made of a \<^verbatim>\<open>```json\<close> or plain opening fence, a content without backticks and
  a closing fence, with any white space around, the text handed to the parser is the
  stripped content. A parsed array is returned as it is. A collaborator error, a parse
  failure, and any other exception of the guarded block give the empty sequence.
\<close>

theorem check_strips_fences_and_absorbs_errors:
  "(CHR 0x60 \<notin> set inner \<and> list_all is_space ws1 \<and> list_all is_space ws2 \<longrightarrow>
       clean_response (ws1 @ ''```json'' @ inner @ ''```'' @ ws2) = strip inner
       \<and> (take 4 inner \<noteq> ''json'' \<longrightarrow>
            clean_response (ws1 @ ''```'' @ inner @ ''```'' @ ws2) = strip inner))
   \<and> (generate w 0 (FactCheckPrompt topic (evidence_summary evs)) = Inr text \<longrightarrow>
        (json_loads w (clean_response text) = Some (JArr xs) \<longrightarrow> check w topic evs = xs)
        \<and> (json_loads w (clean_response text) = None \<longrightarrow> check w topic evs = []))
   \<and> (generate w 0 (FactCheckPrompt topic (evidence_summary evs)) = Inl e \<longrightarrow>
        check w topic evs = [])
   \<and> (check_body w topic evs = Inl e' \<longrightarrow> check w topic evs = [])"
  using clean_json_fence[of inner ws1 ws2] clean_plain_fence[of inner ws1 ws2]
  by (simp add: check_def check_body_def)

theorem check_strips_fences_and_absorbs_errors_witness:
  "clean_response (''```json'' @ '' [] '' @ ''```'') = strip '' [] ''
   \<and> clean_response (''```'' @ '' [] '' @ ''```'') = strip '' [] ''
   \<and> check story_env ''moon'' story_evidence = story_facts
   \<and> check garbled_env ''moon'' story_evidence = []
   \<and> check offline_env ''moon'' story_evidence = []"
proof -
  have a: "clean_response (''```json'' @ '' [] '' @ ''```'') = strip '' [] ''
      \<and> clean_response (''```'' @ '' [] '' @ ''```'') = strip '' [] ''"
    using check_strips_fences_and_absorbs_errors[of "'' [] ''" "[]" "[]"] by simp
  have b: "check story_env ''moon'' story_evidence = story_facts"
    using check_strips_fences_and_absorbs_errors[of _ _ _ story_env "''moon''" story_evidence
        story_reply story_facts]
    by (simp add: story_env_def story_clean)
  have c: "check garbled_env ''moon'' story_evidence = []"
    using check_strips_fences_and_absorbs_errors[of _ _ _ garbled_env "''moon''" story_evidence
        "''not json''"]
    by (simp add: garbled_env_def)
  have d: "check offline_env ''moon'' story_evidence = []"
    using check_strips_fences_and_absorbs_errors[of _ _ _ offline_env "''moon''" story_evidence
        _ _ CollaboratorError]
    by (simp add: offline_env_def)
  from a b c d show ?thesis by blast
qed

text \<open>
  A parsed dictionary is returned as a one-element list.
\<close>

lemma check_wraps_object:
  "generate w 0 (FactCheckPrompt topic (evidence_summary evs)) = Inr text \<Longrightarrow>
   json_loads w (clean_response text) = Some (JObj kvs) \<Longrightarrow>
   check w topic evs = [JObj kvs]"
  by (simp add: check_def check_body_def)

text \<open>
  C10. The claim: a response that parses to a JSON value other than an array is
  returned wrapped in a one-element list. For the response \<^verbatim>\<open>42\<close> the log line
  \<^verbatim>\<open>len(claims)\<close> raises before the wrapping is reached, and \<^verbatim>\<open>check\<close> returns the empty
  sequence.
\<close>

theorem check_number_gives_empty:
  "check numeric_reply_env ''t'' [] = []"
  by (simp add: check_def check_body_def numeric_reply_env_def clean_42)

subsection \<open>CoordinatorAgent\<close>

lemma analyze_on_miss:
  "cache_miss bank m topic \<Longrightarrow>
     analyze w bank m topic = analyze_miss w bank (snd (bank_get bank m topic)) topic"
  by (auto simp: cache_miss_def analyze_def split: prod.splits option.splits)

lemma analyze_on_hit:
  "fst (bank_get bank m topic) = Some cs \<Longrightarrow> cs \<noteq> [] \<Longrightarrow>
     analyze w bank m topic = (Inr cs, snd (bank_get bank m topic))"
  by (auto simp: analyze_def split: prod.splits)

lemma analyze_cases:
  "cache_miss bank m topic \<or> (\<exists>cs. fst (bank_get bank m topic) = Some cs \<and> cs \<noteq> [])"
  by (auto simp: cache_miss_def split: option.splits)

lemma analyze_fact_Inr:
  assumes "analyze_fact w evs cm i f = Inr c"
  shows "py_getitem f ''claim'' = Inr (JStr (claim c))"
    and "evidence c = select_evidence evs cm"
    and "\<not> cached c"
    and "0 \<le> confidence c \<and> confidence c \<le> 1"
    and "\<exists>v. py_get f ''confidence'' (JFloat (Finite 0.8)) = Inr v
              \<and> py_float w v = Inr (Finite (confidence c))"
    and "verdict c = MISINFORMATION"
    and "analyzed_at c = now w i"
proof -
  from assms obtain cv r v x where
    cv: "py_getitem f ''claim'' = Inr cv" and
    r: "py_get f ''reasoning'' (JStr []) = Inr r" and
    v: "py_get f ''confidence'' (JFloat (Finite 0.8)) = Inr v" and
    x: "py_float w v = Inr x" and
    new: "ClaimAnalysis_new cv MISINFORMATION x
            (explain w (Suc i) cv r (select_evidence evs cm))
            (select_evidence evs cm) (now w i) False = Inr c"
    by (auto simp: analyze_fact_def Let_def split: sum.splits)
  from new obtain cl conf ex where
    cl: "as_str cv = Some cl" and conf: "in_unit_interval x = Some conf" and
    c: "c = \<lparr>claim = cl, verdict = MISINFORMATION, confidence = conf, explanation = ex,
             evidence = select_evidence evs cm, analyzed_at = now w i, cached = False\<rparr>"
    by (auto simp: ClaimAnalysis_new_def split: option.splits)
  from cl have cvs: "cv = JStr cl" by (cases cv) auto
  from conf have xs: "x = Finite conf" and rng: "0 \<le> conf \<and> conf \<le> 1"
    by (cases x; auto split: if_splits)+
  show "py_getitem f ''claim'' = Inr (JStr (claim c))" using cv cvs c by simp
  show "evidence c = select_evidence evs cm" using c by simp
  show "\<not> cached c" using c by simp
  show "0 \<le> confidence c \<and> confidence c \<le> 1" using c rng by simp
  show "\<exists>v. py_get f ''confidence'' (JFloat (Finite 0.8)) = Inr v
              \<and> py_float w v = Inr (Finite (confidence c))"
    using v x xs c by simp
  show "verdict c = MISINFORMATION" using c by simp
  show "analyzed_at c = now w i" using c by simp
qed

lemma build_claims_length:
  "build_claims w evs cm i fs = Inr cs \<Longrightarrow> length cs = length fs"
  by (induction fs arbitrary: i cs) (auto split: sum.splits)

lemma build_claims_nth:
  "build_claims w evs cm i fs = Inr cs \<Longrightarrow> j < length fs \<Longrightarrow>
     analyze_fact w evs cm (i + j) (fs ! j) = Inr (cs ! j)"
proof (induction fs arbitrary: i cs j)
  case Nil
  then show ?case by simp
next
  case (Cons f fs)
  then obtain c cs' where c: "analyze_fact w evs cm i f = Inr c"
    and cs': "build_claims w evs cm (Suc i) fs = Inr cs'" and cs: "cs = c # cs'"
    by (auto split: sum.splits)
  show ?case
  proof (cases j)
    case 0
    with c cs show ?thesis by simp
  next
    case (Suc j')
    with Cons.prems have "j' < length fs" by simp
    from Cons.IH[OF cs' this] Suc cs show ?thesis by simp
  qed
qed

lemma build_claims_total:
  "(\<And>j. j < length fs \<Longrightarrow> \<exists>c. analyze_fact w evs cm (i + j) (fs ! j) = Inr c) \<Longrightarrow>
     \<exists>cs. build_claims w evs cm i fs = Inr cs"
proof (induction fs arbitrary: i)
  case Nil
  then show ?case by simp
next
  case (Cons f fs)
  from Cons.prems[of 0] obtain c where c: "analyze_fact w evs cm i f = Inr c" by auto
  have "\<exists>c. analyze_fact w evs cm (Suc i + j) (fs ! j) = Inr c" if "j < length fs" for j
    using Cons.prems[of "Suc j"] that by simp
  from Cons.IH[OF this] obtain cs where "build_claims w evs cm (Suc i) fs = Inr cs" by blast
  with c show ?case by simp
qed

lemma build_claims_uncached:
  assumes "build_claims w evs cm i fs = Inr cs" and "c \<in> set cs"
  shows "\<not> cached c"
proof -
  from assms(2) obtain j where j: "j < length cs" "cs ! j = c"
    by (auto simp: in_set_conv_nth)
  with build_claims_length[OF assms(1)] have "j < length fs" by simp
  from build_claims_nth[OF assms(1) this] j
  have "analyze_fact w evs cm (i + j) (fs ! j) = Inr c" by simp
  from analyze_fact_Inr(3)[OF this] show ?thesis .
qed

lemma analyze_miss_Inr:
  assumes "fst (analyze_miss w bank m topic) = Inr claims" and "gather w topic = Inr evs"
    and "evs \<noteq> []"
  shows "\<exists>cm. assess evs = Inr cm
            \<and> build_claims w evs cm 0 (take 3 (check w topic evs)) = Inr claims"
  using assms by (auto simp: analyze_miss_def Let_def split: sum.splits)

lemma analyze_miss_state:
  "snd (analyze_miss w bank m topic) = m
   \<or> (\<exists>evs cm claims. gather w topic = Inr evs \<and> evs \<noteq> [] \<and> assess evs = Inr cm
        \<and> build_claims w evs cm 0 (take 3 (check w topic evs)) = Inr claims
        \<and> claims \<noteq> [] \<and> fst (analyze_miss w bank m topic) = Inr claims
        \<and> snd (analyze_miss w bank m topic) = bank_store bank m topic claims)"
  by (auto simp: analyze_miss_def Let_def split: sum.splits)

lemma analyze_state:
  "snd (analyze w bank m topic) = snd (bank_get bank m topic)
   \<or> (\<exists>claims. claims \<noteq> [] \<and> (\<forall>c \<in> set claims. \<not> cached c)
         \<and> fst (analyze w bank m topic) = Inr claims
         \<and> snd (analyze w bank m topic) =
             bank_store bank (snd (bank_get bank m topic)) topic claims)"
proof (cases "cache_miss bank m topic")
  case True
  let ?m = "snd (bank_get bank m topic)"
  from analyze_miss_state[of w bank ?m topic] show ?thesis
  proof
    assume "snd (analyze_miss w bank ?m topic) = ?m"
    with True show ?thesis by (simp add: analyze_on_miss)
  next
    assume "\<exists>evs cm claims. gather w topic = Inr evs \<and> evs \<noteq> [] \<and> assess evs = Inr cm
        \<and> build_claims w evs cm 0 (take 3 (check w topic evs)) = Inr claims
        \<and> claims \<noteq> [] \<and> fst (analyze_miss w bank ?m topic) = Inr claims
        \<and> snd (analyze_miss w bank ?m topic) = bank_store bank ?m topic claims"
    then obtain evs cm claims where
      bc: "build_claims w evs cm 0 (take 3 (check w topic evs)) = Inr claims" and
      rest: "claims \<noteq> []" "fst (analyze_miss w bank ?m topic) = Inr claims"
        "snd (analyze_miss w bank ?m topic) = bank_store bank ?m topic claims"
      by blast
    from build_claims_uncached[OF bc] have "\<forall>c \<in> set claims. \<not> cached c" by blast
    with rest True show ?thesis by (auto simp: analyze_on_miss)
  qed
next
  case False
  with analyze_cases[of bank m topic] obtain cs where
    "fst (bank_get bank m topic) = Some cs" "cs \<noteq> []" by blast
  from analyze_on_hit[OF this] show ?thesis by simp
qed

lemma analyze_fact_total:
  assumes "well_shaped w f"
  shows "\<exists>c. analyze_fact w evs cm i f = Inr c"
proof -
  from assms obtain kvs where f: "f = JObj kvs" by (cases f) (auto simp: well_shaped_def)
  from assms f obtain s where s: "map_of kvs ''claim'' = Some (JStr s)"
    by (auto simp: well_shaped_def split: option.splits json.splits)
  from assms f obtain r where r: "py_get f ''reasoning'' (JStr []) = Inr (JStr r)"
    by (auto simp: well_shaped_def split: option.splits json.splits)
  have "\<exists>v x. py_get f ''confidence'' (JFloat (Finite 0.8)) = Inr v
    \<and> py_float w v = Inr x \<and> in_unit_interval x \<noteq> None"
  proof (cases "map_of kvs ''confidence''")
    case None
    have "in_unit_interval (Finite 0.8) = Some 0.8" by simp
    with None f show ?thesis
      by (intro exI[of _ "JFloat (Finite 0.8)"] exI[of _ "Finite 0.8"]) simp
  next
    case (Some v)
    with assms f show ?thesis
      by (auto simp: well_shaped_def split: sum.splits)
  qed
  then obtain v x where v: "py_get f ''confidence'' (JFloat (Finite 0.8)) = Inr v"
    and x: "py_float w v = Inr x" and u: "in_unit_interval x \<noteq> None"
    by blast
  have "\<exists>ex. as_str (explain w (Suc i) (JStr s) (JStr r) (select_evidence evs cm)) = Some ex"
    by (simp add: explain_def split: sum.split)
  with f s r v x u show ?thesis
    by (auto simp: analyze_fact_def ClaimAnalysis_new_def Let_def)
qed

lemma entries_mb_get [simp]: "entries (snd (mb_get mb topic)) = entries mb"
  by (simp add: mb_get_def split: option.splits)

lemma fst_mb_get [simp]: "fst (mb_get mb topic) = entries mb topic"
  by (simp add: mb_get_def split: option.splits)

text \<open>
  The example run.
\<close>

lemma story_select:
  "select_evidence story_evidence [''https://a.org/1'' \<mapsto> Medium, ''https://b.gov/2'' \<mapsto> High]
     = [\<lparr>title = ''Unknown'', url = ''https://b.gov/2'', snippet = ''''\<rparr>]"
  by (simp add: select_evidence_def story_evidence_def)

lemma story_build:
  "build_claims story_env story_evidence
      [''https://a.org/1'' \<mapsto> Medium, ''https://b.gov/2'' \<mapsto> High] 0 story_facts
     = Inr story_claims"
  by (simp add: story_facts_def analyze_fact_def story_select explain_def ClaimAnalysis_new_def
      story_claims_def story_env_def)

lemma story_miss: "cache_miss MemoryBank empty_bank topic"
  by (simp add: cache_miss_def MemoryBank_def empty_bank_def)

lemma story_analyze:
  "analyze story_env MemoryBank empty_bank ''moon''
     = (Inr story_claims, mb_store (snd (mb_get empty_bank ''moon'')) ''moon'' story_claims)"
proof -
  have "take 3 story_facts = story_facts" by (simp add: story_facts_def)
  moreover have "story_evidence \<noteq> []" "story_claims \<noteq> []"
    by (simp_all add: story_evidence_def story_claims_def)
  moreover have "analyze story_env MemoryBank empty_bank ''moon''
      = analyze_miss story_env MemoryBank (snd (bank_get MemoryBank empty_bank ''moon'')) ''moon''"
    by (rule analyze_on_miss[OF story_miss])
  moreover have "bank_get MemoryBank = mb_get" "bank_store MemoryBank = mb_store"
    by (simp_all add: MemoryBank_def)
  ultimately show ?thesis
    by (simp add: analyze_miss_def story_gather story_assess story_check story_build)
qed

text \<open>
  C4. On a cache miss with non-empty evidence, a run of \<^verbatim>\<open>analyze\<close> that returns claims
  has assessed the evidence, and its claims are built from the first three facts of the
  verifier in their order: claim \<open>i\<close> carries the \<^verbatim>\<open>claim\<close> string of fact \<open>i\<close>, the first
  three items of the high-credibility evidence when there is any and of all the evidence
  otherwise, \<^verbatim>\<open>cached = False\<close>, and the confidence of the fact converted to a float, which
  is 0.8 when the fact has none.
\<close>

theorem analyze_miss_builds_claims:
  assumes "cache_miss bank m topic" and "gather w topic = Inr evs" and "evs \<noteq> []"
    and "fst (analyze w bank m topic) = Inr claims"
  shows "\<exists>cm. assess evs = Inr cm
    \<and> length claims = min 3 (length (check w topic evs))
    \<and> (\<forall>i < length claims.
          py_getitem (check w topic evs ! i) ''claim'' = Inr (JStr (claim (claims ! i)))
        \<and> evidence (claims ! i) =
            take 3 (if \<exists>e \<in> set evs. cm (url e) = Some High
                    then filter (\<lambda>e. cm (url e) = Some High) evs else evs)
        \<and> cached (claims ! i) = False
        \<and> (\<exists>v. py_get (check w topic evs ! i) ''confidence'' (JFloat (Finite 0.8)) = Inr v
               \<and> py_float w v = Inr (Finite (confidence (claims ! i))))
        \<and> (\<forall>kvs. check w topic evs ! i = JObj kvs \<longrightarrow> map_of kvs ''confidence'' = None
               \<longrightarrow> confidence (claims ! i) = 0.8))"
proof -
  let ?facts = "check w topic evs"
  from assms have "fst (analyze_miss w bank (snd (bank_get bank m topic)) topic) = Inr claims"
    by (simp add: analyze_on_miss)
  from analyze_miss_Inr[OF this assms(2,3)] obtain cm where
    cm: "assess evs = Inr cm" and
    bc: "build_claims w evs cm 0 (take 3 ?facts) = Inr claims"
    by blast
  have len: "length claims = min 3 (length ?facts)"
    using build_claims_length[OF bc] by (simp add: min.commute)
  have sel: "select_evidence evs cm =
      take 3 (if \<exists>e \<in> set evs. cm (url e) = Some High
              then filter (\<lambda>e. cm (url e) = Some High) evs else evs)"
    by (auto simp: select_evidence_def Let_def filter_empty_conv)
  have each: "py_getitem (?facts ! i) ''claim'' = Inr (JStr (claim (claims ! i)))
        \<and> evidence (claims ! i) =
            take 3 (if \<exists>e \<in> set evs. cm (url e) = Some High
                    then filter (\<lambda>e. cm (url e) = Some High) evs else evs)
        \<and> cached (claims ! i) = False
        \<and> (\<exists>v. py_get (?facts ! i) ''confidence'' (JFloat (Finite 0.8)) = Inr v
               \<and> py_float w v = Inr (Finite (confidence (claims ! i))))
        \<and> (\<forall>kvs. ?facts ! i = JObj kvs \<longrightarrow> map_of kvs ''confidence'' = None
               \<longrightarrow> confidence (claims ! i) = 0.8)"
    if i: "i < length claims" for i
  proof -
    from i len have i3: "i < length (take 3 ?facts)" by simp
    from build_claims_nth[OF bc i3] i3
    have af: "analyze_fact w evs cm i (?facts ! i) = Inr (claims ! i)" by simp
    note facts = analyze_fact_Inr[OF af]
    have "confidence (claims ! i) = 0.8"
      if "?facts ! i = JObj kvs" "map_of kvs ''confidence'' = None" for kvs
      using facts(5) that by auto
    with facts sel show ?thesis by auto
  qed
  from cm len each show ?thesis by blast
qed

theorem analyze_miss_builds_claims_witness:
  "cache_miss MemoryBank empty_bank ''moon''
   \<and> fst (analyze story_env MemoryBank empty_bank ''moon'') = Inr story_claims
   \<and> length story_claims = min 3 (length (check story_env ''moon'' story_evidence))
   \<and> cached (story_claims ! 1) = False
   \<and> py_getitem (check story_env ''moon'' story_evidence ! 1) ''claim''
       = Inr (JStr (claim (story_claims ! 1)))
   \<and> confidence (story_claims ! 1) = 0.8"
proof -
  have ne: "story_evidence \<noteq> []" by (simp add: story_evidence_def)
  have res: "fst (analyze story_env MemoryBank empty_bank ''moon'') = Inr story_claims"
    by (simp add: story_analyze)
  have k: "1 < length story_claims" by (simp add: story_claims_def)
  have f: "check story_env ''moon'' story_evidence ! 1
             = JObj [(''claim'', JStr ''The moon is flat''), (''reasoning'', JStr ''It is round'')]"
    "map_of [(''claim'', JStr ''The moon is flat''), (''reasoning'', JStr ''It is round'')]
       ''confidence'' = None"
    by (simp_all add: story_check story_facts_def)
  from analyze_miss_builds_claims[OF story_miss story_gather ne res]
  show ?thesis using story_miss res k f by blast
qed

text \<open>
  C5, as the code has it. The confidence of every claim that \<^verbatim>\<open>analyze\<close> builds lies in
  the unit interval, because the constructor validates the range; a confidence outside it
  is not clamped: the construction fails with a validation error.
\<close>

theorem confidence_validated_not_clamped:
  "(cache_miss bank m topic \<longrightarrow> fst (analyze w bank m topic) = Inr claims \<longrightarrow>
      (\<forall>c \<in> set claims. 0 \<le> confidence c \<and> confidence c \<le> 1))
   \<and> (r < 0 \<or> 1 < r \<longrightarrow>
        ClaimAnalysis_new claim_v vd (Finite r) expl evs t c = Inl ValidationError)"
proof -
  have "0 \<le> confidence c \<and> confidence c \<le> 1"
    if miss: "cache_miss bank m topic" and res: "fst (analyze w bank m topic) = Inr claims"
      and c: "c \<in> set claims" for c
  proof -
    let ?m = "snd (bank_get bank m topic)"
    from miss res have am: "fst (analyze_miss w bank ?m topic) = Inr claims"
      by (simp add: analyze_on_miss)
    from c have ne: "claims \<noteq> []" by auto
    from am ne obtain evs where evs: "gather w topic = Inr evs" "evs \<noteq> []"
      by (auto simp: analyze_miss_def split: sum.splits if_splits)
    from analyze_miss_Inr[OF am evs] obtain cm where
      bc: "build_claims w evs cm 0 (take 3 (check w topic evs)) = Inr claims" by blast
    from c obtain i where i: "i < length claims" "claims ! i = c"
      by (auto simp: in_set_conv_nth)
    with build_claims_length[OF bc] have "i < length (take 3 (check w topic evs))" by simp
    from build_claims_nth[OF bc this] i
    have "analyze_fact w evs cm i (take 3 (check w topic evs) ! i) = Inr c" by simp
    from analyze_fact_Inr(4)[OF this] show ?thesis .
  qed
  moreover have "ClaimAnalysis_new claim_v vd (Finite r) expl evs t c = Inl ValidationError"
    if "r < 0 \<or> 1 < r"
    using that by (auto simp: ClaimAnalysis_new_def split: option.splits)
  ultimately show ?thesis by blast
qed

theorem confidence_validated_not_clamped_witness:
  "fst (analyze story_env MemoryBank empty_bank ''moon'') = Inr story_claims
   \<and> 0 \<le> confidence (story_claims ! 0) \<and> confidence (story_claims ! 0) \<le> 1
   \<and> ClaimAnalysis_new (JStr ''x'') MISINFORMATION (Finite 1.5) (JStr ''y'') [] 0 False
       = Inl ValidationError"
proof -
  have res: "fst (analyze story_env MemoryBank empty_bank ''moon'') = Inr story_claims"
    by (simp add: story_analyze)
  have mem: "story_claims ! 0 \<in> set story_claims" by (simp add: story_claims_def)
  from confidence_validated_not_clamped[of MemoryBank empty_bank "''moon''" story_env
      story_claims "1.5" "JStr ''x''" MISINFORMATION "JStr ''y''" "[]" 0 False]
    story_miss res mem
  show ?thesis by simp
qed

text \<open>
  C5, as the claim states it, fails: with a verifier confidence of 1.5 no claim with
  confidence 1 is produced, the run raises.
\<close>

theorem out_of_range_confidence_raises:
  "fst (analyze overconfident_env MemoryBank empty_bank ''moon'') = Inl ValidationError"
proof -
  have g: "gather overconfident_env ''moon'' = Inr story_evidence"
    by (rule demo_search_gather) (simp add: overconfident_env_def)
  have c: "check overconfident_env ''moon'' story_evidence =
             [JObj [(''claim'', JStr ''The moon is cheese''), (''confidence'', JFloat (Finite 1.5))]]"
    by (simp add: check_def check_body_def overconfident_env_def overconfident_clean)
  have "story_evidence \<noteq> []" by (simp add: story_evidence_def)
  then show ?thesis
    by (simp add: analyze_on_miss[OF story_miss] analyze_miss_def g c story_assess analyze_fact_def
        ClaimAnalysis_new_def)
qed

text \<open>
  C7. On a cache miss, when the gatherer returns no evidence, \<^verbatim>\<open>analyze\<close> returns the
  empty sequence and leaves the memory bank as the lookup left it. In every run the memory
  bank is either as the lookup left it, or the result is a non-empty claim sequence and
  that sequence has been stored under the topic.
\<close>

theorem no_evidence_no_store:
  "(cache_miss bank m topic \<longrightarrow> gather w topic = Inr [] \<longrightarrow>
      analyze w bank m topic = (Inr [], snd (bank_get bank m topic)))
   \<and> (snd (analyze w bank m topic) = snd (bank_get bank m topic)
      \<or> (\<exists>claims. claims \<noteq> [] \<and> fst (analyze w bank m topic) = Inr claims
           \<and> snd (analyze w bank m topic) =
               bank_store bank (snd (bank_get bank m topic)) topic claims))"
proof -
  let ?m = "snd (bank_get bank m topic)"
  have a: "analyze w bank m topic = (Inr [], ?m)"
    if "cache_miss bank m topic" "gather w topic = Inr []"
    using that by (simp add: analyze_on_miss analyze_miss_def)
  have b: "snd (analyze w bank m topic) = ?m
      \<or> (\<exists>claims. claims \<noteq> [] \<and> fst (analyze w bank m topic) = Inr claims
           \<and> snd (analyze w bank m topic) = bank_store bank ?m topic claims)"
  proof (cases "cache_miss bank m topic")
    case True
    with analyze_miss_state[of w bank ?m topic] show ?thesis
      by (auto simp: analyze_on_miss)
  next
    case False
    with analyze_cases[of bank m topic] obtain cs where
      "fst (bank_get bank m topic) = Some cs" "cs \<noteq> []" by blast
    from analyze_on_hit[OF this] show ?thesis by simp
  qed
  from a b show ?thesis by blast
qed

theorem no_evidence_no_store_witness:
  "cache_miss MemoryBank empty_bank ''quiet'' \<and> gather silent_env ''quiet'' = Inr []
   \<and> analyze silent_env MemoryBank empty_bank ''quiet''
       = (Inr [], snd (bank_get MemoryBank empty_bank ''quiet''))"
proof -
  have g: "gather silent_env ''quiet'' = Inr []"
    by (simp add: gather_def queries_def gather_results_def silent_env_def)
  from no_evidence_no_store[of MemoryBank empty_bank "''quiet''" silent_env] story_miss g
  show ?thesis by blast
qed

text \<open>
  C1, as the code has it. \<^verbatim>\<open>analyze\<close> returns a claim sequence whenever the gatherer and
  the credibility assessment succeed and the first three facts of the verifier are well
  shaped, whatever the language model does in the explainer; when the guarded block of
  the fact checker fails, on a cache miss the result is the empty sequence.
\<close>

theorem analyze_fail_soft:
  assumes "gather w topic = Inr evs" and "assess evs = Inr cm"
    and "list_all (well_shaped w) (take 3 (check w topic evs))"
  shows "(\<exists>claims. fst (analyze w bank m topic) = Inr claims)
    \<and> (cache_miss bank m topic \<longrightarrow> (\<exists>e. check_body w topic evs = Inl e)
          \<longrightarrow> fst (analyze w bank m topic) = Inr [])"
proof -
  let ?fs = "take 3 (check w topic evs)"
  let ?m = "snd (bank_get bank m topic)"
  have "\<exists>c. analyze_fact w evs cm (0 + j) (?fs ! j) = Inr c" if "j < length ?fs" for j
    using assms(3) that analyze_fact_total by (simp add: list_all_length)
  from build_claims_total[OF this] obtain cs where
    cs: "build_claims w evs cm 0 ?fs = Inr cs" by blast
  have miss: "fst (analyze_miss w bank ?m topic) = Inr (if evs = [] then [] else cs)"
    using assms(1,2) cs by (simp add: analyze_miss_def)
  have ex: "\<exists>claims. fst (analyze w bank m topic) = Inr claims"
  proof (cases "cache_miss bank m topic")
    case True
    with miss show ?thesis by (simp add: analyze_on_miss)
  next
    case False
    with analyze_cases[of bank m topic] obtain hit where
      "fst (bank_get bank m topic) = Some hit" "hit \<noteq> []" by blast
    from analyze_on_hit[OF this] show ?thesis by simp
  qed
  have "fst (analyze w bank m topic) = Inr []"
    if "cache_miss bank m topic" "check_body w topic evs = Inl e" for e
  proof -
    from that(2) have "check w topic evs = []" by (simp add: check_def)
    with cs have "cs = []" by simp
    with miss that(1) show ?thesis by (simp add: analyze_on_miss)
  qed
  with ex show ?thesis by blast
qed

theorem analyze_fail_soft_witness:
  "gather story_env ''moon'' = Inr story_evidence
   \<and> list_all (well_shaped story_env) (take 3 (check story_env ''moon'' story_evidence))
   \<and> generate story_env 1 (ExplainPrompt (JStr ''The moon is cheese'') (JStr ''It is rock'') [])
       = Inl CollaboratorError
   \<and> (\<exists>claims. fst (analyze story_env MemoryBank empty_bank ''moon'') = Inr claims)
   \<and> check_body offline_env ''moon'' story_evidence = Inl CollaboratorError
   \<and> fst (analyze offline_env MemoryBank empty_bank ''moon'') = Inr []"
proof -
  have ws: "list_all (well_shaped story_env) (take 3 (check story_env ''moon'' story_evidence))"
    by (simp add: story_check story_facts_def well_shaped_def)
  have g: "gather offline_env ''moon'' = Inr story_evidence"
    by (rule demo_search_gather) (simp add: offline_env_def)
  have cb: "check_body offline_env ''moon'' story_evidence = Inl CollaboratorError"
    by (simp add: check_body_def offline_env_def)
  then have ws': "list_all (well_shaped offline_env) (take 3 (check offline_env ''moon'' story_evidence))"
    by (simp add: check_def)
  from analyze_fail_soft[OF story_gather story_assess ws, of MemoryBank empty_bank]
    analyze_fail_soft[OF g story_assess ws', of MemoryBank empty_bank] story_miss cb
  show ?thesis using story_gather ws by (simp add: story_env_def)
qed

text \<open>
  C1, as the claim states it, fails: \<^verbatim>\<open>analyze\<close> has no handler of its own, and for a
  verifier output that parses but has no \<^verbatim>\<open>claim\<close> key the \<^verbatim>\<open>KeyError\<close> of
  \<^verbatim>\<open>fact['claim']\<close> leaves \<^verbatim>\<open>analyze\<close>.
\<close>

theorem analyze_raises_on_keyless_fact:
  "fst (analyze keyless_env MemoryBank empty_bank ''moon'') = Inl KeyError"
proof -
  have g: "gather keyless_env ''moon'' = Inr story_evidence"
    by (rule demo_search_gather) (simp add: keyless_env_def)
  have c: "check keyless_env ''moon'' story_evidence = [JObj [(''verdict'', JStr ''MISINFORMATION'')]]"
    by (simp add: check_def check_body_def keyless_env_def keyless_clean)
  have "story_evidence \<noteq> []" by (simp add: story_evidence_def)
  then show ?thesis
    by (simp add: analyze_on_miss[OF story_miss] analyze_miss_def g c story_assess analyze_fact_def)
qed

text \<open>
  A failing explainer call changes the claim of its own fact only.
\<close>

lemma py_float_generate [simp]: "py_float (w\<lparr>generate := g\<rparr>) v = py_float w v"
  by (cases v) simp_all

lemma gather_generate [simp]: "gather (w\<lparr>generate := g\<rparr>) topic = gather w topic"
  by (simp add: gather_def)

lemma check_generate_later [simp]:
  "check (w\<lparr>generate := (generate w)(Suc k := g)\<rparr>) topic evs = check w topic evs"
  by (simp add: check_def check_body_def cong: sum.case_cong option.case_cong)

lemma analyze_fact_other_call:
  "k \<noteq> i \<Longrightarrow>
     analyze_fact (w\<lparr>generate := (generate w)(Suc k := g)\<rparr>) evs cm i f = analyze_fact w evs cm i f"
  by (simp add: analyze_fact_def explain_def Let_def cong: sum.case_cong option.case_cong)

lemma analyze_fact_failed_call:
  assumes "analyze_fact w evs cm k f = Inr c"
    and "py_get f ''reasoning'' (JStr []) = Inr (JStr r)"
  shows "analyze_fact (w\<lparr>generate := (generate w)(Suc k := (\<lambda>p. Inl e))\<rparr>) evs cm k f
           = Inr (c\<lparr>explanation := r\<rparr>)"
  using assms
  by (auto simp: analyze_fact_def explain_def Let_def ClaimAnalysis_new_def
      split: sum.splits option.splits)

lemma build_claims_later_call:
  "k < i \<Longrightarrow>
     build_claims (w\<lparr>generate := (generate w)(Suc k := g)\<rparr>) evs cm i fs = build_claims w evs cm i fs"
  by (induction fs arbitrary: i) (simp_all add: analyze_fact_other_call cong: sum.case_cong)

lemma build_claims_failed_call:
  assumes "build_claims w evs cm i fs = Inr cs" and "j < length fs"
    and "py_get (fs ! j) ''reasoning'' (JStr []) = Inr (JStr r)"
  shows "build_claims (w\<lparr>generate := (generate w)(Suc (i + j) := (\<lambda>p. Inl e))\<rparr>) evs cm i fs
           = Inr (cs[j := (cs ! j)\<lparr>explanation := r\<rparr>])"
  using assms
proof (induction fs arbitrary: i j cs)
  case Nil
  then show ?case by simp
next
  case (Cons f fs)
  then obtain c cs' where c: "analyze_fact w evs cm i f = Inr c"
    and cs': "build_claims w evs cm (Suc i) fs = Inr cs'" and cs: "cs = c # cs'"
    by (auto split: sum.splits)
  let ?w = "w\<lparr>generate := (generate w)(Suc (i + j) := (\<lambda>p. Inl e))\<rparr>"
  show ?case
  proof (cases j)
    case 0
    with Cons.prems have r: "py_get f ''reasoning'' (JStr []) = Inr (JStr r)" by simp
    have eq: "Suc (i + j) = Suc i" using 0 by simp
    have af: "analyze_fact ?w evs cm i f = Inr (c\<lparr>explanation := r\<rparr>)"
      unfolding eq using analyze_fact_failed_call[OF c r] .
    have bl: "build_claims ?w evs cm (Suc i) fs = Inr cs'"
      unfolding eq using build_claims_later_call[of i "Suc i" w _ evs cm fs] cs' by simp
    have rhs: "cs[j := (cs ! j)\<lparr>explanation := r\<rparr>] = c\<lparr>explanation := r\<rparr> # cs'"
      using 0 cs by simp
    show ?thesis
      unfolding rhs by (simp only: build_claims.simps af bl sum.case)
  next
    case (Suc j')
    with Cons.prems have j': "j' < length fs"
      and r: "py_get (fs ! j') ''reasoning'' (JStr []) = Inr (JStr r)" by simp_all
    have eq: "Suc (i + j) = Suc (Suc i + j')" using Suc by simp
    have af: "analyze_fact ?w evs cm i f = Inr c"
      using analyze_fact_other_call[of "i + j" i w _ evs cm f] c Suc by simp
    have bl: "build_claims ?w evs cm (Suc i) fs = Inr (cs'[j' := (cs' ! j')\<lparr>explanation := r\<rparr>])"
      unfolding eq using Cons.IH[OF cs' j' r] .
    have rhs: "cs[j := (cs ! j)\<lparr>explanation := r\<rparr>]
                 = c # cs'[j' := (cs' ! j')\<lparr>explanation := r\<rparr>]"
      using Suc cs by simp
    show ?thesis
      unfolding rhs by (simp only: build_claims.simps af bl sum.case)
  qed
qed

text \<open>
  C9, as the code has it. When its language-model call raises, \<^verbatim>\<open>explain\<close> returns the
  reasoning it was given. In a run of \<^verbatim>\<open>analyze\<close> that returns claims, let the explainer
  call for the fact at index \<open>k\<close> fail instead, where the reasoning of that fact is the
  string \<open>r\<close> (the empty string when the fact has none): the run returns the same claims,
  except that the explanation of claim \<open>k\<close> is \<open>r\<close>.
\<close>

theorem explainer_failure_is_local:
  assumes "cache_miss bank m topic" and "gather w topic = Inr evs"
    and "fst (analyze w bank m topic) = Inr claims" and "k < length claims"
    and "py_get (check w topic evs ! k) ''reasoning'' (JStr []) = Inr (JStr r)"
  shows "(generate w j (ExplainPrompt cv rs (evidence_text sel)) = Inl e'
            \<longrightarrow> explain w j cv rs sel = rs)
    \<and> fst (analyze (w\<lparr>generate := (generate w)(Suc k := (\<lambda>p. Inl e))\<rparr>) bank m topic)
        = Inr (claims[k := (claims ! k)\<lparr>explanation := r\<rparr>])"
proof -
  let ?w = "w\<lparr>generate := (generate w)(Suc k := (\<lambda>p. Inl e))\<rparr>"
  let ?m = "snd (bank_get bank m topic)"
  let ?fs = "take 3 (check w topic evs)"
  from assms(1,3) have am: "fst (analyze_miss w bank ?m topic) = Inr claims"
    by (simp add: analyze_on_miss)
  from assms(4) have "claims \<noteq> []" by auto
  with am assms(2) have ne: "evs \<noteq> []"
    by (auto simp: analyze_miss_def)
  from analyze_miss_Inr[OF am assms(2) ne] obtain cm where
    cm: "assess evs = Inr cm" and bc: "build_claims w evs cm 0 ?fs = Inr claims" by blast
  from build_claims_length[OF bc] assms(4) have k: "k < length ?fs" by simp
  with assms(5) have r: "py_get (?fs ! k) ''reasoning'' (JStr []) = Inr (JStr r)" by simp
  from build_claims_failed_call[OF bc k r, of e]
  have "build_claims ?w evs cm 0 ?fs = Inr (claims[k := (claims ! k)\<lparr>explanation := r\<rparr>])"
    by simp
  with assms(1,2) ne cm
  have "fst (analyze ?w bank m topic) = Inr (claims[k := (claims ! k)\<lparr>explanation := r\<rparr>])"
    by (simp add: analyze_on_miss analyze_miss_def)
  moreover have "explain w j cv rs sel = rs"
    if "generate w j (ExplainPrompt cv rs (evidence_text sel)) = Inl e'"
    using that by (simp add: explain_def)
  ultimately show ?thesis by blast
qed

theorem explainer_failure_is_local_witness:
  "fst (analyze (story_env\<lparr>generate := (generate story_env)(Suc 1 := (\<lambda>p. Inl CollaboratorError))\<rparr>)
          MemoryBank empty_bank ''moon'')
     = Inr (story_claims[1 := (story_claims ! 1)\<lparr>explanation := ''It is round''\<rparr>])
   \<and> explain story_env 1 (JStr ''The moon is cheese'') (JStr ''It is rock'') [] = JStr ''It is rock''"
proof -
  have res: "fst (analyze story_env MemoryBank empty_bank ''moon'') = Inr story_claims"
    by (simp add: story_analyze)
  have k: "1 < length story_claims" by (simp add: story_claims_def)
  have r: "py_get (check story_env ''moon'' story_evidence ! 1) ''reasoning'' (JStr [])
             = Inr (JStr ''It is round'')"
    by (simp add: story_check story_facts_def)
  have g: "generate story_env 1 (ExplainPrompt (JStr ''The moon is cheese'') (JStr ''It is rock'')
             (evidence_text [])) = Inl CollaboratorError"
    by (simp add: story_env_def)
  from explainer_failure_is_local[OF story_miss story_gather res k r,
      of 1 "JStr ''The moon is cheese''" "JStr ''It is rock''" "[]" CollaboratorError CollaboratorError] g
  show ?thesis by simp
qed

text \<open>
  C9, as the claim states it, fails: the reasoning is whatever the fact holds, and the
  coordinator does not check it. With \<^verbatim>\<open>null\<close> for the reasoning of the second fact, the
  run returns two claims as long as the explainer answers; when the explainer call for the
  second fact fails, its result \<^verbatim>\<open>None\<close> is rejected as an explanation, the exception
  leaves \<^verbatim>\<open>analyze\<close>, and the first claim is lost too.
\<close>

theorem explainer_failure_with_null_reasoning_raises:
  "fst (analyze null_reasoning_env MemoryBank empty_bank ''moon'')
     = Inr [\<lparr>claim = ''The moon is cheese'', verdict = MISINFORMATION, confidence = 0.8,
              explanation = ''Not so.'',
              evidence = [\<lparr>title = ''Unknown'', url = ''https://b.gov/2'', snippet = ''''\<rparr>],
              analyzed_at = 1000, cached = False\<rparr>,
            \<lparr>claim = ''The moon is flat'', verdict = MISINFORMATION, confidence = 0.8,
              explanation = ''Not so.'',
              evidence = [\<lparr>title = ''Unknown'', url = ''https://b.gov/2'', snippet = ''''\<rparr>],
              analyzed_at = 1001, cached = False\<rparr>]
   \<and> fst (analyze
            (null_reasoning_env\<lparr>generate :=
               (generate null_reasoning_env)(Suc 1 := (\<lambda>p. Inl CollaboratorError))\<rparr>)
            MemoryBank empty_bank ''moon'')
       = Inl ValidationError"
proof -
  let ?w = "null_reasoning_env\<lparr>generate :=
               (generate null_reasoning_env)(Suc 1 := (\<lambda>p. Inl CollaboratorError))\<rparr>"
  let ?facts = "[JObj [(''claim'', JStr ''The moon is cheese''), (''reasoning'', JStr ''It is rock'')],
                 JObj [(''claim'', JStr ''The moon is flat''), (''reasoning'', JNull)]]"
  have clean: "clean_response null_reasoning_reply = null_reasoning_reply"
    by (simp add: clean_no_fence null_reasoning_reply_def strip_def lstrip_def rstrip_def
        is_space_def)
  have g: "gather null_reasoning_env ''moon'' = Inr story_evidence"
    by (rule demo_search_gather) (simp add: null_reasoning_env_def)
  have c: "check null_reasoning_env ''moon'' story_evidence = ?facts"
    by (simp add: check_def check_body_def null_reasoning_env_def clean)
  have ne: "story_evidence \<noteq> []" by (simp add: story_evidence_def)
  have gen: "generate null_reasoning_env (Suc k) p = Inr ''Not so.''" for k p
    by (simp add: null_reasoning_env_def)
  have nw: "now null_reasoning_env i = 1000 + i" for i
    by (simp add: null_reasoning_env_def)
  have a: "fst (analyze null_reasoning_env MemoryBank empty_bank ''moon'')
     = Inr [\<lparr>claim = ''The moon is cheese'', verdict = MISINFORMATION, confidence = 0.8,
              explanation = ''Not so.'',
              evidence = [\<lparr>title = ''Unknown'', url = ''https://b.gov/2'', snippet = ''''\<rparr>],
              analyzed_at = 1000, cached = False\<rparr>,
            \<lparr>claim = ''The moon is flat'', verdict = MISINFORMATION, confidence = 0.8,
              explanation = ''Not so.'',
              evidence = [\<lparr>title = ''Unknown'', url = ''https://b.gov/2'', snippet = ''''\<rparr>],
              analyzed_at = 1001, cached = False\<rparr>]"
    using ne
    by (simp add: analyze_on_miss[OF story_miss] analyze_miss_def g c story_assess analyze_fact_def
        story_select explain_def ClaimAnalysis_new_def gen nw)
  have b: "fst (analyze ?w MemoryBank empty_bank ''moon'') = Inl ValidationError"
    using ne
    by (simp add: analyze_on_miss[OF story_miss] analyze_miss_def g c story_assess analyze_fact_def
        story_select explain_def ClaimAnalysis_new_def gen nw)
  from a b show ?thesis by (rule conjI)
qed

subsection \<open>Cache hits\<close>

text \<open>
  Every stored sequence is non-empty and consists of claims with \<^verbatim>\<open>cached = False\<close>.
\<close>

lemma reachable_entries:
  "reachable mb \<Longrightarrow> entries mb t = Some cs \<Longrightarrow> cs \<noteq> [] \<and> (\<forall>c \<in> set cs. \<not> cached c)"
proof (induction arbitrary: t cs rule: reachable.induct)
  case initial
  then show ?case by (simp add: empty_bank_def)
next
  case (run mb w topic)
  from analyze_state[of w MemoryBank mb topic] show ?case
  proof
    assume "snd (analyze w MemoryBank mb topic) = snd (bank_get MemoryBank mb topic)"
    with run.prems have "entries mb t = Some cs" by (simp add: MemoryBank_def)
    with run.IH show ?thesis by blast
  next
    assume "\<exists>claims. claims \<noteq> [] \<and> (\<forall>c \<in> set claims. \<not> cached c)
         \<and> fst (analyze w MemoryBank mb topic) = Inr claims
         \<and> snd (analyze w MemoryBank mb topic) =
             bank_store MemoryBank (snd (bank_get MemoryBank mb topic)) topic claims"
    then obtain claims where cl: "claims \<noteq> []" "\<forall>c \<in> set claims. \<not> cached c" and
      st: "snd (analyze w MemoryBank mb topic) = mb_store (snd (mb_get mb topic)) topic claims"
      by (auto simp: MemoryBank_def)
    show ?thesis
    proof (cases "t = topic")
      case True
      with run.prems st have "cs = claims" by (simp add: mb_store_def)
      with cl show ?thesis by simp
    next
      case False
      with run.prems st have "entries mb t = Some cs" by (simp add: mb_store_def)
      with run.IH show ?thesis by blast
    qed
  qed
qed

text \<open>
  C6. In a memory bank produced by runs of the coordinator, a lookup that finds an entry
  makes \<^verbatim>\<open>analyze\<close> return the stored sequence as it is and leaves the entries unchanged;
  every returned claim has \<^verbatim>\<open>cached = False\<close>, so the cache signal of the API stays off.
\<close>

theorem cache_hit_returns_stored:
  assumes "reachable mb" and "entries mb topic = Some cs"
  shows "fst (analyze w MemoryBank mb topic) = Inr cs
    \<and> entries (snd (analyze w MemoryBank mb topic)) = entries mb
    \<and> (\<forall>c \<in> set cs. cached c = False)
    \<and> response_cached cs = False"
proof -
  from reachable_entries[OF assms] have ne: "cs \<noteq> []" and unc: "\<forall>c \<in> set cs. \<not> cached c"
    by blast+
  have "fst (bank_get MemoryBank mb topic) = Some cs"
    using assms(2) by (simp add: MemoryBank_def)
  from analyze_on_hit[OF this ne, of w]
  have "analyze w MemoryBank mb topic = (Inr cs, snd (mb_get mb topic))"
    by (simp add: MemoryBank_def)
  moreover have "response_cached cs = False"
    using unc by (simp add: response_cached_def list_ex_iff)
  ultimately show ?thesis using unc by simp
qed

theorem cache_hit_returns_stored_witness:
  "reachable (snd (analyze story_env MemoryBank empty_bank ''moon''))
   \<and> fst (analyze keyless_env MemoryBank (snd (analyze story_env MemoryBank empty_bank ''moon'')) ''moon'')
       = Inr story_claims
   \<and> response_cached story_claims = False"
proof -
  let ?mb = "snd (analyze story_env MemoryBank empty_bank ''moon'')"
  have r: "reachable ?mb" by (rule reachable.run[OF reachable.initial])
  have e: "entries ?mb ''moon'' = Some story_claims"
    by (simp add: story_analyze mb_store_def)
  from cache_hit_returns_stored[OF r e, of keyless_env] r show ?thesis by simp
qed

end
